(* ===== verification/Prelude.thy ===== *)
theory Prelude
  imports Main "HOL-Library.Word"
begin

text \<open>
  Shared vocabulary of the development: the C integer types of the LP64 target
  (\<^verbatim>\<open>ARCH=arm64\<close> in \<^verbatim>\<open>finder-app/manual-linux.sh\<close>), the run-time faults a C
  operation can have, sequencing of operations that may fault, and the generic lemmas on lists
  and words that the component theories use.
\<close>

section \<open>Integer types of the target\<close>

type_synonym uint8_t = "8 word"
type_synonym byte = "8 word"
type_synonym size_t = "64 word"
type_synonym ssize_t = "64 word"
type_synonym loff_t = "64 word"

section \<open>Run-time faults and sequencing\<close>

text \<open>
  A C operation either completes or runs into behaviour that C leaves undefined (or that never
  returns). The second case is a value of type \<open>fault\<close>, so that memory safety of a function is
  the theorem that its result is never \<open>Inl\<close>.
\<close>

datatype fault =
    NullDeref
  | UseAfterFree
  | BadFree
  | OutOfBounds
  | Deadlock
  | BadUnlock
  | SignedOverflow
  | BadConversion

definition bindE :: "fault + 'a \<Rightarrow> ('a \<Rightarrow> fault + 'b) \<Rightarrow> fault + 'b" where
  "bindE m f = (case m of Inl e \<Rightarrow> Inl e | Inr x \<Rightarrow> f x)"

lemma bindE_simps [simp]:
  "bindE (Inl e) f = Inl e"
  "bindE (Inr x) f = f x"
  by (simp_all add: bindE_def)

lemma bindE_Inr_iff: "bindE m f = Inr y \<longleftrightarrow> (\<exists>x. m = Inr x \<and> f x = Inr y)"
  by (cases m) simp_all

lemma bindE_assoc: "bindE (bindE m f) g = bindE m (\<lambda>x. bindE (f x) g)"
  by (cases m) simp_all

lemma bindE_split:
  "P (bindE m f) \<longleftrightarrow> (\<forall>e. m = Inl e \<longrightarrow> P (Inl e)) \<and> (\<forall>x. m = Inr x \<longrightarrow> P (f x))"
  by (cases m) simp_all

text \<open>A loop body run on each element in turn; a fault ends the loop.\<close>

primrec foldE :: "('a \<Rightarrow> 's \<Rightarrow> fault + 's) \<Rightarrow> 'a list \<Rightarrow> 's \<Rightarrow> fault + 's" where
  "foldE f [] s = Inr s"
| "foldE f (x # xs) s = bindE (f x s) (foldE f xs)"

lemma foldE_append: "foldE f (xs @ ys) s = bindE (foldE f xs s) (foldE f ys)"
  by (induction xs arbitrary: s) (simp_all add: bindE_def split: sum.splits)

text \<open>
  An operation that may also run forever has a result of type \<open>(fault + 'a) option\<close>: \<open>None\<close>
  means that it does not return. \<open>bindT\<close> sequences such operations.
\<close>

definition bindT :: "(fault + 'a) option \<Rightarrow> ('a \<Rightarrow> (fault + 'b) option) \<Rightarrow> (fault + 'b) option" where
  "bindT m f = Option.bind m (\<lambda>r. case r of Inl e \<Rightarrow> Some (Inl e) | Inr x \<Rightarrow> f x)"

abbreviation returns :: "'a \<Rightarrow> (fault + 'a) option" where
  "returns x \<equiv> Some (Inr x)"

lemma bindT_simps [simp]:
  "bindT None f = None"
  "bindT (Some (Inl e)) f = Some (Inl e)"
  "bindT (returns x) f = f x"
  by (simp_all add: bindT_def)

lemma bindT_mono [partial_function_mono]:
  assumes "mono_option B" and "\<And>y. mono_option (\<lambda>f. C y f)"
  shows "mono_option (\<lambda>f. bindT (B f) (\<lambda>y. C y f))"
  unfolding bindT_def
proof (intro bind_mono assms)
  fix r :: "fault + _"
  show "mono_option (\<lambda>f. case r of Inl e \<Rightarrow> Some (Inl e) | Inr x \<Rightarrow> C x f)"
    using assms(2) by (cases r) (simp_all add: option.const_mono)
qed

section \<open>Signed arithmetic\<close>

text \<open>
  Signed 64-bit integers (\<^verbatim>\<open>time_t\<close>, \<^verbatim>\<open>long\<close>) are integers with the range checked on every
  addition: C leaves an overflow undefined.
\<close>

definition add_s64 :: "int \<Rightarrow> int \<Rightarrow> fault + int" where
  "add_s64 a b = (if - (2 ^ 63) \<le> a + b \<and> a + b < 2 ^ 63 then Inr (a + b) else Inl SignedOverflow)"

section \<open>Words\<close>

named_theorems word_nat_simps \<open>transfer of word arithmetic to nat under a no-overflow bound\<close>

lemma unat_add_no_wrap [word_nat_simps]:
  fixes a b :: "'a :: len word"
  assumes "unat a + unat b < 2 ^ LENGTH('a)"
  shows "unat (a + b) = unat a + unat b"
  using assms by (simp add: unat_word_ariths)

lemma unat_add_size_t [word_nat_simps]:
  fixes a b :: size_t
  assumes "unat a + unat b < 2 ^ 64"
  shows "unat (a + b) = unat a + unat b"
  using assms by (intro unat_add_no_wrap) simp

lemma unat_of_nat_size_t [word_nat_simps]:
  assumes "n < 2 ^ 64"
  shows "unat (of_nat n :: size_t) = n"
  using assms by (simp add: unat_of_nat)

lemma unat_of_nat_le: "n \<le> unat (w :: 'a :: len word) \<Longrightarrow> unat (of_nat n :: 'a word) = n"
  by (rule le_unat_uoi)

lemma unat_uint8_bound [simp]: "unat (x :: uint8_t) < 256"
  using unsigned_less [of x] by simp

lemma unat_ucast_8_64 [simp]: "unat (ucast (x :: uint8_t) :: size_t) = unat x"
proof -
  have "unat x < 2 ^ 64" by (rule less_trans [OF unat_uint8_bound]) simp
  then show ?thesis by (simp add: unsigned_ucast_eq take_bit_nat_eq_self)
qed

lemma unat_size_t_bound [simp]: "unat (x :: size_t) < 18446744073709551616"
  using unsigned_less [of x] by simp

lemma unat_minus_one_size_t [simp]: "unat (- 1 :: size_t) = 18446744073709551615"
  by (simp add: unsigned_minus_1_eq_mask mask_eq_exp_minus_1)

lemma unat_of_nat_diff_unat [simp]:
  "unat (of_nat (unat (n :: 'a :: len word) - k) :: 'a word) = unat n - k"
  by (rule le_unat_uoi [of _ n]) simp

lemma sint_eq_int_unat:
  fixes w :: "64 word"
  assumes "unat w < 9223372036854775808"
  shows "sint w = int (unat w)"
proof -
  have u: "uint w = int (unat w)" by simp
  have "(2::int) ^ 63 = int 9223372036854775808" by simp
  then have "uint w < 2 ^ 63"
    using assms unfolding u by (simp only: of_nat_less_iff)
  moreover have "- (2 ^ 63) \<le> uint w"
    unfolding u by (rule order_trans [of _ 0]) simp_all
  ultimately have "signed_take_bit 63 (uint w) = uint w"
    by (intro signed_take_bit_int_eq_self)
  then have "sint w = uint w" by (simp add: sint_uint)
  then show ?thesis unfolding u .
qed

section \<open>Lists\<close>

named_theorems list_window \<open>facts on the last elements of a list\<close>

definition lastn :: "nat \<Rightarrow> 'a list \<Rightarrow> 'a list" where
  "lastn n xs = drop (length xs - n) xs"

lemma length_lastn [simp]: "length (lastn n xs) = min n (length xs)"
  by (simp add: lastn_def)

lemma lastn_short [simp]: "length xs \<le> n \<Longrightarrow> lastn n xs = xs"
  by (simp add: lastn_def)

lemma lastn_snoc_full [list_window]:
  "length xs = n \<Longrightarrow> 0 < n \<Longrightarrow> lastn n (xs @ [x]) = tl xs @ [x]"
  by (cases xs) (simp_all add: lastn_def)

lemma lastn_lastn_append [list_window]: "lastn n (lastn n xs @ ys) = lastn n (xs @ ys)"
proof (cases "length xs \<le> n")
  case True
  then show ?thesis by simp
next
  case False
  then show ?thesis by (cases "length ys \<le> n") (simp_all add: lastn_def add.commute)
qed

lemma set_lastn_subset: "set (lastn n xs) \<subseteq> set xs"
  by (auto simp: lastn_def dest: in_set_dropD)

lemma lastn_map: "lastn n (map f xs) = map f (lastn n xs)"
  by (simp add: lastn_def drop_map)

lemma sum_list_le_length_times:
  fixes xs :: "nat list"
  shows "\<forall>n \<in> set xs. n \<le> m \<Longrightarrow> sum_list xs \<le> length xs * m"
  by (induction xs) auto

lemma replicate_2 [simp]: "replicate 2 x = [x, x]"
  by (simp add: numeral_2_eq_2)

end
