(* ===== verification/Timespec.thy ===== *)
theory Timespec
  imports Prelude
begin

text \<open>
  Points in time and durations of the server: \<^verbatim>\<open>timespec_add\<close> and \<^verbatim>\<open>timespec_is_elapsed\<close> of
  \<^verbatim>\<open>server/src/utilities.c\<close>.
\<close>

section \<open>Operations\<close>

record timespec =
  tv_sec :: int
  tv_nsec :: int

definition timespec_add :: "timespec \<Rightarrow> timespec \<Rightarrow> fault + timespec" where
  "timespec_add lhs rhs =
     bindE (add_s64 (tv_sec lhs) (tv_sec rhs)) (\<lambda>sec.
     bindE (add_s64 (tv_nsec lhs) (tv_nsec rhs)) (\<lambda>nsec.
       if nsec \<ge> 1000000000 then
         bindE (add_s64 sec 1) (\<lambda>sec'. Inr \<lparr>tv_sec = sec', tv_nsec = nsec - 1000000000\<rparr>)
       else Inr \<lparr>tv_sec = sec, tv_nsec = nsec\<rparr>))"

definition timespec_is_elapsed :: "timespec \<Rightarrow> timespec \<Rightarrow> bool" where
  "timespec_is_elapsed end_time current_time =
     (if tv_sec current_time < tv_sec end_time then False
      else if tv_sec current_time > tv_sec end_time then True
      else if tv_nsec current_time \<le> tv_nsec end_time then False
      else True)"

section \<open>Meaning\<close>

text \<open>
  A timespec in normal form has its nanoseconds below one second; it stands for a number of
  nanoseconds.
\<close>

definition timespec_norm :: "timespec \<Rightarrow> bool" where
  "timespec_norm t \<longleftrightarrow> 0 \<le> tv_nsec t \<and> tv_nsec t < 1000000000"

definition nanoseconds :: "timespec \<Rightarrow> int" where
  "nanoseconds t = tv_sec t * 1000000000 + tv_nsec t"

text \<open>The order of points in time: by seconds, then by nanoseconds.\<close>

instantiation timespec_ext :: (linorder) linorder
begin

definition less_timespec_ext :: "'a timespec_ext \<Rightarrow> 'a timespec_ext \<Rightarrow> bool" where
  "less_timespec_ext a b \<longleftrightarrow> tv_sec a < tv_sec b \<or> tv_sec a = tv_sec b \<and>
     (tv_nsec a < tv_nsec b \<or> tv_nsec a = tv_nsec b \<and> timespec.more a < timespec.more b)"

definition less_eq_timespec_ext :: "'a timespec_ext \<Rightarrow> 'a timespec_ext \<Rightarrow> bool" where
  "less_eq_timespec_ext a b \<longleftrightarrow> a < b \<or> a = b"

instance
  by intro_classes (auto simp: less_timespec_ext_def less_eq_timespec_ext_def intro: timespec.equality)

end

lemma timespec_is_elapsed_less: "timespec_is_elapsed end_time current_time \<longleftrightarrow> end_time < current_time"
  by (auto simp: timespec_is_elapsed_def less_timespec_ext_def)

lemma nanoseconds_less:
  "timespec_norm a \<Longrightarrow> timespec_norm b \<Longrightarrow> a < b \<longleftrightarrow> nanoseconds a < nanoseconds b"
  by (auto simp: less_timespec_ext_def timespec_norm_def nanoseconds_def)

lemma timespec_add_outcome:
  assumes "timespec_norm a" and "timespec_norm b"
    and "- (2 ^ 63) \<le> tv_sec a + tv_sec b" and "tv_sec a + tv_sec b + 1 < 2 ^ 63"
  obtains c where "timespec_add a b = Inr c" and "timespec_norm c"
    and "nanoseconds c = nanoseconds a + nanoseconds b"
proof (cases "tv_nsec a + tv_nsec b \<ge> 1000000000")
  case True
  with assms show thesis
    by (intro that [of "\<lparr>tv_sec = tv_sec a + tv_sec b + 1, tv_nsec = tv_nsec a + tv_nsec b - 1000000000\<rparr>"])
      (simp_all add: timespec_add_def add_s64_def timespec_norm_def nanoseconds_def)
next
  case False
  with assms show thesis
    by (intro that [of "\<lparr>tv_sec = tv_sec a + tv_sec b, tv_nsec = tv_nsec a + tv_nsec b\<rparr>"])
      (simp_all add: timespec_add_def add_s64_def timespec_norm_def nanoseconds_def)
qed

lemma elapsed_iff:
  assumes "timespec_norm e" and "timespec_norm c"
  shows "timespec_is_elapsed e c \<longleftrightarrow> nanoseconds e < nanoseconds c"
  using assms by (simp add: timespec_is_elapsed_less nanoseconds_less)

section \<open>Properties\<close>

text \<open>
  Property C14. The deadline computed by adding a timeout to a start time has elapsed exactly when
  more than the timeout has passed since the start; the addition does not overflow for seconds
  in the range of \<^verbatim>\<open>time_t\<close> and the deadline is in normal form.
\<close>

theorem timespec_deadline:
  assumes "timespec_norm start" and "timespec_norm timeout" and "timespec_norm now"
    and "- (2 ^ 63) \<le> tv_sec start + tv_sec timeout" and "tv_sec start + tv_sec timeout + 1 < 2 ^ 63"
  shows "\<exists>deadline. timespec_add start timeout = Inr deadline \<and> timespec_norm deadline \<and>
    timespec_is_elapsed deadline now = (nanoseconds timeout < nanoseconds now - nanoseconds start)"
  using assms(1,2,4,5)
proof (rule timespec_add_outcome)
  fix c
  assume "timespec_add start timeout = Inr c" and "timespec_norm c"
    and "nanoseconds c = nanoseconds start + nanoseconds timeout"
  with elapsed_iff [OF _ assms(3)] show ?thesis by auto
qed

theorem timespec_deadline_witness:
  "timespec_add \<lparr>tv_sec = 7, tv_nsec = 600000000\<rparr> \<lparr>tv_sec = 1, tv_nsec = 500000000\<rparr> =
     Inr \<lparr>tv_sec = 9, tv_nsec = 100000000\<rparr> \<and>
   timespec_is_elapsed \<lparr>tv_sec = 9, tv_nsec = 100000000\<rparr> \<lparr>tv_sec = 9, tv_nsec = 100000001\<rparr>"
  using timespec_deadline [of "\<lparr>tv_sec = 7, tv_nsec = 600000000\<rparr>" "\<lparr>tv_sec = 1, tv_nsec = 500000000\<rparr>"
      "\<lparr>tv_sec = 9, tv_nsec = 100000001\<rparr>"]
  by (auto simp: timespec_norm_def nanoseconds_def timespec_add_def add_s64_def)

end
