(* ===== verification/Posix.thy ===== *)
theory Posix
  imports Timespec
begin

text \<open>
  The process the server runs in: its global variables (\<^verbatim>\<open>server/src/config.c\<close>), the settings of
  \<^verbatim>\<open>server/include/config.h\<close>, sequencing of operations on it, and the operating system calls as a
  record of functions that the server's operations take as an argument.
\<close>

section \<open>Settings and globals\<close>

text \<open>
  The build switch, and the result file that it selects. The operations that the preprocessor
  changes take the value of the switch as an argument, so that both builds are modelled; the
  others use the setting of the repository.
\<close>

definition USE_AESD_CHAR_DEVICE :: int where
  "USE_AESD_CHAR_DEVICE = 1"

definition result_file :: "int \<Rightarrow> string" where
  "result_file use_device = (if use_device = 1 then ''/dev/aesdchar'' else ''/var/tmp/aesdsocketdata'')"

definition RESULT_FILE :: string where
  "RESULT_FILE = result_file USE_AESD_CHAR_DEVICE"

definition PORT :: string where
  "PORT = ''9000''"

definition BACKLOG :: int where
  "BACKLOG = 2"

definition BUFFER_SIZE :: size_t where
  "BUFFER_SIZE = 1024"

definition TIMESTAMP_LOG_INTERVAL_S :: int where
  "TIMESTAMP_LOG_INTERVAL_S = 10"

text \<open>
  The globals of the process and everything outside of it. A semaphore is its count, the mutex
  says whether it is held.
\<close>

record 'w globals =
  is_terminated :: bool
  timestamp_semaphore :: nat
  result_file_mutex :: bool
  world :: 'w

definition config_is_terminated :: "'w globals \<Rightarrow> bool" where
  "config_is_terminated w = is_terminated w"

definition config_set_is_terminated :: "'w globals \<Rightarrow> 'w globals" where
  "config_set_is_terminated w = w\<lparr>is_terminated := True\<rparr>"

section \<open>Operations of a process\<close>

text \<open>
  An operation of the process: \<open>None\<close> when it never returns (a call that blocks forever or a loop
  that does not end), a fault, or a value and the state afterwards.
\<close>

type_synonym ('w, 'a) proc = "'w globals \<Rightarrow> (fault + 'a \<times> 'w globals) option"

definition retP :: "'a \<Rightarrow> ('w, 'a) proc" where
  "retP x w = returns (x, w)"

definition bindP :: "('w, 'a) proc \<Rightarrow> ('a \<Rightarrow> ('w, 'b) proc) \<Rightarrow> ('w, 'b) proc" where
  "bindP m f w = bindT (m w) (\<lambda>(x, w'). f x w')"

definition checkP :: "fault + 'a \<Rightarrow> ('w, 'a) proc" where
  "checkP r w = Some (bindE r (\<lambda>x. Inr (x, w)))"

definition getP :: "('w globals \<Rightarrow> 'a) \<Rightarrow> ('w, 'a) proc" where
  "getP f w = returns (f w, w)"

definition updP :: "('w globals \<Rightarrow> 'w globals) \<Rightarrow> ('w, unit) proc" where
  "updP f w = returns ((), f w)"

lemma proc_simps [simp]:
  "retP x w = returns (x, w)"
  "checkP (Inr y) w = returns (y, w)"
  "checkP (Inl e) w = Some (Inl e)"
  "getP g w = returns (g w, w)"
  "updP u w = returns ((), u w)"
  by (simp_all add: retP_def checkP_def getP_def updP_def)

lemma bindP_returns: "m w = returns (x, w') \<Longrightarrow> bindP m f w = f x w'"
  by (simp add: bindP_def)

lemma bindP_simps [simp]:
  "bindP (retP x) f w = f x w"
  "bindP (checkP (Inr y)) f w = f y w"
  "bindP (checkP (Inl e)) f w = Some (Inl e)"
  "bindP (getP g) f w = f (g w) w"
  "bindP (updP u) h w = h () (u w)"
  by (simp_all add: bindP_def)

text \<open>The first \<open>n\<close> bytes of a buffer; using more than the buffer holds is a fault.\<close>

definition buffer_bytes :: "byte list \<Rightarrow> size_t \<Rightarrow> fault + byte list" where
  "buffer_bytes buf n = (if unat n \<le> length buf then Inr (take (unat n) buf) else Inl OutOfBounds)"

text \<open>Bytes stored at the start of a buffer.\<close>

definition store_bytes :: "byte list \<Rightarrow> byte list \<Rightarrow> byte list" where
  "store_bytes d buf = d @ drop (length d) buf"

lemma length_store_bytes: "length d \<le> length buf \<Longrightarrow> length (store_bytes d buf) = length buf"
  by (simp add: store_bytes_def)

lemma buffer_store: "length d \<le> unat (n :: size_t) \<Longrightarrow> unat n \<le> length buf \<Longrightarrow>
    buffer_bytes (store_bytes d buf) (of_nat (length d)) = Inr d"
  using unat_of_nat_le [of "length d" n] by (simp add: buffer_bytes_def store_bytes_def)

section \<open>System calls\<close>

text \<open>
  The calls the server makes. Data that a call stores in a buffer of the caller is part of its
  result. \<open>sys_malloc\<close> returns the address and the initial bytes of the new object, or \<open>None\<close> for
  a null pointer.
\<close>

datatype oflag = O_RDONLY | O_WRONLY | O_RDWR | O_APPEND | O_CREAT

datatype signal = SIGINT | SIGTERM | SIGUSR1

record 'w posix =
  sys_open :: "string \<Rightarrow> oflag list \<Rightarrow> nat \<Rightarrow> ('w, int) proc"
  sys_write :: "int \<Rightarrow> byte list \<Rightarrow> ('w, ssize_t) proc"
  sys_read :: "int \<Rightarrow> size_t \<Rightarrow> ('w, ssize_t \<times> byte list) proc"
  sys_close :: "int \<Rightarrow> ('w, int) proc"
  sys_malloc :: "size_t \<Rightarrow> ('w, (nat \<times> byte list) option) proc"
  sys_free :: "nat \<Rightarrow> ('w, unit) proc"
  sys_recv :: "int \<Rightarrow> size_t \<Rightarrow> ('w, ssize_t \<times> byte list) proc"
  sys_send :: "int \<Rightarrow> byte list \<Rightarrow> ('w, ssize_t) proc"
  sys_accept :: "int \<Rightarrow> ('w, int) proc"
  sys_errno :: "'w globals \<Rightarrow> int"
  sys_clock :: "('w, timespec) proc"
  sys_nanosleep :: "timespec \<Rightarrow> ('w, unit) proc"
  sys_getline :: "('w, ssize_t \<times> byte list) proc"
  sys_feof :: "'w globals \<Rightarrow> bool"
  sys_fork :: "('w, int) proc"
  sys_setsid :: "('w, int) proc"
  sys_chdir :: "string \<Rightarrow> ('w, int) proc"
  sys_dup :: "int \<Rightarrow> ('w, int) proc"
  sys_socket :: "('w, int) proc"
  sys_setsockopt :: "int \<Rightarrow> ('w, int) proc"
  sys_getaddrinfo :: "string \<Rightarrow> ('w, int \<times> nat) proc"
  sys_freeaddrinfo :: "nat option \<Rightarrow> ('w, unit) proc"
  sys_bind :: "int \<Rightarrow> nat \<Rightarrow> ('w, int) proc"
  sys_listen :: "int \<Rightarrow> int \<Rightarrow> ('w, int) proc"
  sys_signal :: "signal \<Rightarrow> ('w, bool) proc"
  sys_sem_init :: "('w, int) proc"
  sys_sem_wait :: "('w, unit) proc"
  sys_localtime :: "timespec \<Rightarrow> ('w, nat option) proc"
  sys_strftime :: "nat \<Rightarrow> nat \<Rightarrow> ('w, byte list) proc"
  sys_remove :: "string \<Rightarrow> ('w, int) proc"
  sys_timer_create :: "('w, int \<times> nat) proc"
  sys_timer_settime :: "nat \<Rightarrow> timespec \<Rightarrow> timespec \<Rightarrow> ('w, int) proc"
  sys_timer_delete :: "nat \<Rightarrow> ('w, int) proc"

text \<open>A system in which every call that can fail does.\<close>

definition no_posix :: "'w posix" where
  "no_posix = \<lparr>sys_open = (\<lambda>_ _ _. retP (- 1)), sys_write = (\<lambda>_ _. retP (- 1)), sys_read = (\<lambda>_ _. retP (- 1, [])),
     sys_close = (\<lambda>_. retP (- 1)), sys_malloc = (\<lambda>_. retP None), sys_free = (\<lambda>_. retP ()),
     sys_recv = (\<lambda>_ _. retP (- 1, [])), sys_send = (\<lambda>_ _. retP (- 1)), sys_accept = (\<lambda>_. retP (- 1)),
     sys_errno = (\<lambda>_. 0), sys_clock = retP \<lparr>tv_sec = 0, tv_nsec = 0\<rparr>, sys_nanosleep = (\<lambda>_. retP ()),
     sys_getline = retP (- 1, []), sys_feof = (\<lambda>_. True), sys_fork = retP (- 1), sys_setsid = retP (- 1),
     sys_chdir = (\<lambda>_. retP (- 1)), sys_dup = (\<lambda>_. retP (- 1)), sys_socket = retP (- 1),
     sys_setsockopt = (\<lambda>_. retP (- 1)), sys_getaddrinfo = (\<lambda>_. retP (- 1, 0)), sys_freeaddrinfo = (\<lambda>_. retP ()),
     sys_bind = (\<lambda>_ _. retP (- 1)), sys_listen = (\<lambda>_ _. retP (- 1)), sys_signal = (\<lambda>_. retP False),
     sys_sem_init = retP (- 1), sys_sem_wait = retP (), sys_localtime = (\<lambda>_. retP None),
     sys_strftime = (\<lambda>_ _. retP []), sys_remove = (\<lambda>_. retP (- 1)), sys_timer_create = retP (- 1, 0),
     sys_timer_settime = (\<lambda>_ _ _. retP (- 1)), sys_timer_delete = (\<lambda>_. retP (- 1))\<rparr>"

end
