(* ===== verification/Utilities.thy ===== *)
theory Utilities
  imports Posix
begin

text \<open>
  File helpers of the server, \<^verbatim>\<open>server/src/utilities.c\<close>: appending to a file, becoming a daemon and
  reading a line.
\<close>

definition append_to_file :: "'w posix \<Rightarrow> string \<Rightarrow> byte list \<Rightarrow> size_t \<Rightarrow> ('w, int) proc" where
  "append_to_file S path buffer buffer_len =
     bindP (sys_open S path [O_WRONLY, O_APPEND, O_CREAT] 420) (\<lambda>fd.
     bindP (checkP (buffer_bytes buffer buffer_len)) (\<lambda>data.
     bindP (sys_write S fd data) (\<lambda>result.
       if result = - 1 then retP (- 1)
       else if result \<noteq> buffer_len then retP (- 1)
       else bindP (sys_close S fd) (\<lambda>r. if r = - 1 then retP (- 1) else retP 0))))"

definition daemonize :: "'w posix \<Rightarrow> ('w, int) proc" where
  "daemonize S =
     bindP (sys_fork S) (\<lambda>pid.
       if pid = - 1 then retP (- 1)
       else if pid \<noteq> 0 then retP 1
       else
         bindP (sys_setsid S) (\<lambda>sid.
           if sid = - 1 then retP (- 1)
           else
             bindP (sys_chdir S ''/'') (\<lambda>r.
               if r = - 1 then retP (- 1)
               else
                 bindP (sys_open S ''/dev/null'' [O_RDWR] 0) (\<lambda>_.
                 bindP (sys_dup S 0) (\<lambda>_.
                 bindP (sys_dup S 0) (\<lambda>_. retP 0))))))"

definition read_line_from_stream :: "'w posix \<Rightarrow> ('w, int \<times> byte list) proc" where
  "read_line_from_stream S =
     bindP (sys_getline S) (\<lambda>(n, line).
       if n = - 1 then
         bindP (getP (sys_feof S)) (\<lambda>at_end. if at_end then retP (1, line) else retP (- 1, line))
       else retP (0, line))"

end
