(* ===== verification/Socket_Server.thy ===== *)
theory Socket_Server
  imports Utilities
begin

text \<open>
  Creating the listening socket, \<^verbatim>\<open>server/src/socket_server.c\<close>. Variables of the caller that a
  function sets through a pointer are arguments with their old value and part of the result with
  their new one; a null \<^verbatim>\<open>addrinfo\<close> pointer is \<open>None\<close>.
\<close>

definition socket_server_create_address_info :: "'w posix \<Rightarrow> nat option \<Rightarrow> ('w, int \<times> nat option) proc" where
  "socket_server_create_address_info S address_info =
     bindP (sys_getaddrinfo S PORT) (\<lambda>(status, info).
       if status \<noteq> 0 then retP (status, address_info) else retP (status, Some info))"

definition socket_server_create ::
  "'w posix \<Rightarrow> int \<Rightarrow> nat option \<Rightarrow> ('w, int \<times> int \<times> nat option) proc" where
  "socket_server_create S socket_fd_out address_info =
     bindP (sys_socket S) (\<lambda>socket_fd.
       if socket_fd = - 1 then retP (- 1, socket_fd_out, address_info)
       else
         bindP (sys_setsockopt S socket_fd) (\<lambda>r.
           if r < 0 then retP (- 1, socket_fd_out, address_info)
           else
             bindP (socket_server_create_address_info S address_info) (\<lambda>(status, info).
               if status \<noteq> 0 then retP (- 1, socket_fd_out, info)
               else
                 case info of
                   None \<Rightarrow> checkP (Inl NullDeref)
                 | Some ai \<Rightarrow>
                     bindP (sys_bind S socket_fd ai) (\<lambda>r.
                       if r = - 1 then retP (- 1, socket_fd_out, info)
                       else
                         bindP (sys_listen S socket_fd BACKLOG) (\<lambda>r.
                           if r = - 1 then retP (- 1, socket_fd_out, info)
                           else retP (0, socket_fd, info))))))"

text \<open>
  The functions never fault, and the caller's descriptor is set exactly when the whole setup
  succeeds.
\<close>

lemma create_address_info_some:
  assumes "socket_server_create_address_info S info w = returns ((0, info'), w')"
  shows "\<exists>ai. info' = Some ai"
  using assms by (auto simp: socket_server_create_address_info_def bindP_def bindT_def
      split: Option.bind_splits sum.splits prod.splits if_splits)

end
