(* ===== verification/Socket_Client.thy ===== *)
theory Socket_Client
  imports Utilities
begin

text \<open>
  One client connection, \<^verbatim>\<open>server/src/socket_client.c\<close>: accepting it, storing what it sends and
  sending the stored data back.
\<close>

section \<open>Operations\<close>

definition EAGAIN :: int where
  "EAGAIN = 11"

text \<open>\<open>EWOULDBLOCK\<close> has the value of \<open>EAGAIN\<close> on Linux.\<close>

definition accept_delay :: timespec where
  "accept_delay = \<lparr>tv_sec = 0, tv_nsec = 10000000\<rparr>"

text \<open>
  The loop that waits for a connection. The result is the return code with the descriptor that
  is stored for code 0.
\<close>

partial_function (option) accept_loop ::
  "'w posix \<Rightarrow> int \<Rightarrow> timespec \<Rightarrow> int \<Rightarrow> 'w globals \<Rightarrow> (fault + (int \<times> int) \<times> 'w globals) option" where
  "accept_loop S server_fd end_time client_fd w =
     (if client_fd < 0 then
        if config_is_terminated w then returns ((1, client_fd), w)
        else
          bindT (sys_clock S w) (\<lambda>(current_time, w1).
            if timespec_is_elapsed end_time current_time then returns ((2, client_fd), w1)
            else
              bindT (sys_accept S server_fd w1) (\<lambda>(fd, w2).
                if sys_errno S w2 = EAGAIN then
                  bindT (sys_nanosleep S accept_delay w2) (\<lambda>(_, w3). accept_loop S server_fd end_time fd w3)
                else returns ((- 1, fd), w2)))
      else returns ((0, client_fd), w))"

definition socket_client_create_connection :: "'w posix \<Rightarrow> int \<Rightarrow> timespec \<Rightarrow> ('w, int \<times> int) proc" where
  "socket_client_create_connection S server_fd timeout =
     bindP (sys_clock S) (\<lambda>start_time.
     bindP (checkP (timespec_add start_time timeout)) (\<lambda>end_time.
       accept_loop S server_fd end_time (- 1)))"

text \<open>
  The receive buffer is an array of \<^verbatim>\<open>BUFFER_SIZE\<close> bytes on the stack: the loop starts with
  whatever bytes are there and every \<^verbatim>\<open>recv\<close> overwrites a prefix of it.
\<close>

partial_function (option) receive_loop ::
  "'w posix \<Rightarrow> string \<Rightarrow> int \<Rightarrow> byte list \<Rightarrow> 'w globals \<Rightarrow> (fault + int \<times> 'w globals) option" where
  "receive_loop S path client_fd recv_buffer w =
     bindT (sys_recv S client_fd BUFFER_SIZE w) (\<lambda>((bytes_received, data), w1).
       if bytes_received = - 1 then returns (- 1, w1)
       else
         bindT (append_to_file S path (store_bytes data recv_buffer) bytes_received w1) (\<lambda>(r, w2).
           if r = - 1 then returns (- 1, w2)
           else if bytes_received = BUFFER_SIZE
           then receive_loop S path client_fd (store_bytes data recv_buffer) w2
           else returns (0, w2)))"

definition socket_client_receive_and_write_data ::
  "'w posix \<Rightarrow> string \<Rightarrow> int \<Rightarrow> byte list \<Rightarrow> ('w, int) proc" where
  "socket_client_receive_and_write_data S path client_fd recv_buffer =
     receive_loop S path client_fd recv_buffer"

definition socket_client_send_line :: "'w posix \<Rightarrow> int \<Rightarrow> byte list \<Rightarrow> size_t \<Rightarrow> ('w, int) proc" where
  "socket_client_send_line S client_fd line len =
     bindP (checkP (buffer_bytes line len)) (\<lambda>data.
     bindP (sys_send S client_fd data) (\<lambda>bytes_sent.
       if bytes_sent = - 1 then retP (- 1)
       else if bytes_sent \<noteq> len then retP (- 1)
       else retP 0))"

definition line_len :: size_t where
  "line_len = 32768"

partial_function (option) send_loop ::
  "'w posix \<Rightarrow> int \<Rightarrow> int \<Rightarrow> byte list \<Rightarrow> ssize_t \<Rightarrow> 'w globals \<Rightarrow> (fault + int \<times> 'w globals) option" where
  "send_loop S fd client_fd line bytes_read w =
     (if bytes_read \<noteq> 0 then
        bindT (socket_client_send_line S client_fd line bytes_read w) (\<lambda>(r, w1).
          if r \<noteq> 0 then returns (- 1, w1)
          else
            bindT (sys_read S fd line_len w1) (\<lambda>((n, data), w2).
              send_loop S fd client_fd (store_bytes data line) n w2))
      else returns (0, w))"

definition socket_client_send_file :: "'w posix \<Rightarrow> string \<Rightarrow> int \<Rightarrow> ('w, int) proc" where
  "socket_client_send_file S path client_fd =
     bindP (sys_open S path [O_RDONLY] 0) (\<lambda>fd.
     bindP (sys_malloc S line_len) (\<lambda>p.
       case p of
         None \<Rightarrow> checkP (Inl NullDeref)
       | Some (addr, line) \<Rightarrow>
           bindP (sys_read S fd line_len) (\<lambda>(bytes_read, data).
           bindP (send_loop S fd client_fd (store_bytes data line) bytes_read) (\<lambda>r.
             if r = - 1 then retP (- 1)
             else
               bindP (sys_free S addr) (\<lambda>_.
               bindP (sys_close S fd) (\<lambda>_. retP 0))))))"

end
