(* ===== verification/Linked_Loops.thy ===== *)
theory Linked_Loops
  imports Prelude
begin

text \<open>
  The loops over linked lists of \<^verbatim>\<open>server/include/queue.h\<close>. The loop macros of its four kinds of lists
  expand to the same code up to the names of the macros for the first and the next element, so
  the loops take these as arguments, and their behaviour on a list is proved once.
\<close>

section \<open>Loops\<close>

text \<open>
  The loops with the body as an argument. The plain loop reads the successor after the body has
  run, the safe loop before. \<open>'c\<close> holds the local variables the body assigns. A loop may run
  forever on a heap that is not a list, so its result is optional.
\<close>

partial_function (option) foreach ::
  "(nat option \<Rightarrow> 's \<Rightarrow> fault + nat option) \<Rightarrow>
   (nat option \<Rightarrow> 'c \<times> 's \<Rightarrow> (fault + 'c \<times> 's) option) \<Rightarrow>
   nat option \<Rightarrow> 'c \<times> 's \<Rightarrow> (fault + 'c \<times> 's) option" where
  "foreach nxt body var st =
     (if var = None then returns st
      else bindT (body var st) (\<lambda>st'.
           bindT (Some (nxt var (snd st'))) (\<lambda>var'. foreach nxt body var' st')))"

partial_function (option) foreach_safe ::
  "(nat option \<Rightarrow> 's \<Rightarrow> fault + nat option) \<Rightarrow>
   (nat option \<Rightarrow> 'c \<times> 's \<Rightarrow> (fault + 'c \<times> 's) option) \<Rightarrow>
   nat option \<Rightarrow> 'c \<times> 's \<Rightarrow> (fault + 'c \<times> 's) option" where
  "foreach_safe nxt body var st =
     (if var = None then returns st
      else bindT (Some (nxt var (snd st))) (\<lambda>tvar.
           bindT (body var st) (\<lambda>st'. foreach_safe nxt body tvar st')))"

text \<open>The search loops of the removal and concatenation macros: for the element before a given one, for the last.\<close>

partial_function (option) find_pred ::
  "(nat option \<Rightarrow> 's \<Rightarrow> fault + nat option) \<Rightarrow> nat option \<Rightarrow> nat option \<Rightarrow> 's \<Rightarrow> (fault + nat option) option" where
  "find_pred nxt curelm elm s =
     bindT (Some (nxt curelm s)) (\<lambda>q. if q = elm then returns curelm else find_pred nxt q elm s)"

partial_function (option) find_end ::
  "(nat option \<Rightarrow> 's \<Rightarrow> fault + nat option) \<Rightarrow> nat option \<Rightarrow> 's \<Rightarrow> (fault + nat option) option" where
  "find_end nxt curelm s =
     bindT (Some (nxt curelm s)) (\<lambda>q. if q \<noteq> None then find_end nxt q s else returns curelm)"

text \<open>An invariant of the body of a safe loop holds when the loop returns, on any heap.\<close>

lemma foreach_safe_invariant:
  assumes "foreach_safe nxt body var st = returns st'" and "P st"
    and "\<And>v s s'. P s \<Longrightarrow> body v s = returns s' \<Longrightarrow> P s'"
  shows "P st'"
proof -
  let ?keep = "\<lambda>body. \<forall>v s s'. P s \<longrightarrow> body v s = returns s' \<longrightarrow> P s'"
  have "?keep body \<longrightarrow> P st \<longrightarrow> (case Inr st' :: fault + _ of Inl e \<Rightarrow> True | Inr st' \<Rightarrow> P st')"
  proof (rule foreach_safe.raw_induct [OF _ assms(1),
        where P = "\<lambda>nxt body var st y. ?keep body \<longrightarrow> P st \<longrightarrow> (case y of Inl e \<Rightarrow> True | Inr st' \<Rightarrow> P st')"],
      intro impI, goal_cases)
    case (1 loop nxt body var st y)
    consider (stop) "y = Inr st" | (fault) e where "y = Inl e"
      | (step) q s' where "body var st = returns s'" "loop nxt body q s' = Some y"
      using 1(2) by (auto simp: bindT_def split: if_splits Option.bind_splits sum.splits)
    then show ?case
    proof cases
      case step
      then have "P s'" using 1(3,4) by blast
      then show ?thesis using 1(1) [OF step(2)] 1(3) by blast
    qed (use 1(4) in simp_all)
  qed
  with assms show ?thesis by simp
qed

section \<open>Lists that can be traversed\<close>

definition head_ptr :: "nat list \<Rightarrow> nat option" where
  "head_ptr xs = (case xs of [] \<Rightarrow> None | x # _ \<Rightarrow> Some x)"

lemma head_ptr_simps [simp]: "head_ptr [] = None" "head_ptr (x # xs) = Some x"
  "head_ptr xs = None \<longleftrightarrow> xs = []"
  by (simp_all add: head_ptr_def split: list.splits)

text \<open>What a loop needs: the first element and the successor of a listed element can be read.\<close>

locale traversal =
  fixes listed :: "'s \<Rightarrow> nat list \<Rightarrow> bool"
    and first :: "'s \<Rightarrow> fault + nat option"
    and nxt :: "nat option \<Rightarrow> 's \<Rightarrow> fault + nat option"
  assumes listed_first: "listed s xs \<Longrightarrow> first s = Inr (head_ptr xs)"
    and listed_next: "listed s (xs @ x # ys) \<Longrightarrow> nxt (Some x) s = Inr (head_ptr ys)"
begin

text \<open>
  A loop whose body leaves the list alone visits its elements in order: it is the fold of the
  body's effect on the local variables.
\<close>

lemma foreach_fold:
  assumes "\<And>x c. x \<in> set xs \<Longrightarrow> body (Some x) (c, s) = returns (f x c, s)" and "listed s (pre @ xs)"
  shows "foreach nxt body (head_ptr xs) (c, s) = returns (fold f xs c, s) \<and>
    foreach_safe nxt body (head_ptr xs) (c, s) = returns (fold f xs c, s)"
  using assms
proof (induction xs arbitrary: pre c)
  case Nil
  then show ?case by (simp add: foreach.simps foreach_safe.simps)
next
  case (Cons x xs)
  have "nxt (Some x) s = Inr (head_ptr xs)" using Cons.prems(2) by (rule listed_next)
  moreover have "body (Some x) (c, s) = returns (f x c, s)" using Cons.prems(1) by simp
  ultimately show ?case
    using Cons.IH [of "pre @ [x]" "f x c"] Cons.prems
    by (simp add: foreach.simps [of _ _ "Some x"] foreach_safe.simps [of _ _ "Some x"])
qed

text \<open>The searches find their element on a list without repetitions.\<close>

lemma find_pred_listed:
  assumes "listed s (pre @ (ws @ [y]) @ x # ys)" and "x \<notin> set (ws @ [y])"
  shows "find_pred nxt (head_ptr (ws @ [y])) (Some x) s = returns (Some y)"
  using assms
proof (induction ws arbitrary: pre)
  case Nil
  then show ?case using listed_next [of s pre y "x # ys"] by (subst find_pred.simps) simp
next
  case (Cons w ws)
  have "nxt (Some w) s = Inr (head_ptr (ws @ [y]))"
    using listed_next [of s pre w "(ws @ [y]) @ x # ys"] Cons.prems(1) by (cases ws) simp_all
  moreover have "head_ptr (ws @ [y]) \<noteq> Some x" using Cons.prems(2) by (cases ws) auto
  moreover have "find_pred nxt (head_ptr (ws @ [y])) (Some x) s = returns (Some y)"
    using Cons.IH [of "pre @ [w]"] Cons.prems by simp
  ultimately show ?case by (subst find_pred.simps) simp
qed

lemma find_end_listed:
  assumes "listed s (pre @ ws @ [y])"
  shows "find_end nxt (head_ptr (ws @ [y])) s = returns (Some y)"
  using assms
proof (induction ws arbitrary: pre)
  case Nil
  then show ?case using listed_next [of s pre y "[]"] by (subst find_end.simps) simp
next
  case (Cons w ws)
  have "nxt (Some w) s = Inr (head_ptr (ws @ [y]))"
    using listed_next [of s pre w "ws @ [y]"] Cons.prems by simp
  then show ?case using Cons.IH [of "pre @ [w]"] Cons.prems by (subst find_end.simps) simp
qed

end

text \<open>
  A body that takes its element off the list and may free it, and records the elements visited.
  The safe loop has read the successor before.
\<close>

definition drain :: "(nat option \<Rightarrow> 's \<Rightarrow> fault + 's) \<Rightarrow> nat option \<Rightarrow> nat option list \<times> 's \<Rightarrow> (fault + nat option list \<times> 's) option" where
  "drain remove var st = bindT (Some (remove var (snd st))) (\<lambda>s. returns (fst st @ [var], s))"

locale draining = traversal +
  fixes remove :: "nat option \<Rightarrow> 's \<Rightarrow> fault + 's"
  assumes remove_listed: "listed s (x # xs) \<Longrightarrow> \<exists>s'. remove (Some x) s = Inr s' \<and> listed s' xs"
begin

lemma foreach_safe_drain:
  assumes "listed s xs"
  shows "\<exists>s'. foreach_safe nxt (drain remove) (head_ptr xs) (c, s) = returns (c @ map Some xs, s') \<and> listed s' []"
  using assms
proof (induction xs arbitrary: s c)
  case Nil
  then show ?case by (simp add: foreach_safe.simps)
next
  case (Cons x xs)
  obtain s1 where s1: "remove (Some x) s = Inr s1" "listed s1 xs" using remove_listed [OF Cons.prems] by blast
  have "nxt (Some x) s = Inr (head_ptr xs)" using listed_next [of s "[]"] Cons.prems by simp
  then show ?case
    using Cons.IH [OF s1(2), of "c @ [Some x]"] s1(1)
    by (simp add: foreach_safe.simps [of _ _ "Some x"] drain_def)
qed

end

end
