(* ===== verification/Slist.thy ===== *)
theory Slist
  imports Linked_Loops
begin

text \<open>
  The singly linked list of \<^verbatim>\<open>server/include/queue.h\<close> as the server uses it: the \<^verbatim>\<open>SLIST\<close> macros
  on a heap of \<^verbatim>\<open>struct node\<close> objects of \<^verbatim>\<open>server/include/utilities.h\<close>. Reading or writing a
  node that is not allocated is a fault; the search loop of \<^verbatim>\<open>SLIST_REMOVE\<close> and the loop of
  \<^verbatim>\<open>SLIST_FOREACH_SAFE\<close> may run forever on a heap that is not a list, so their results are
  optional. The link sanitising macros (\<^verbatim>\<open>QMD_SAVELINK\<close>, \<^verbatim>\<open>TRASHIT\<close>) are empty in this build.
\<close>

section \<open>Nodes\<close>

datatype ThreadStatus = UNITITIALIZED | RUNNING | SUCCEEDED | FAILED

record ThreadData =
  client_fd :: int
  thread_status :: ThreadStatus

type_synonym node_ptr = "nat option"
type_synonym pthread_t = nat

record node =
  thread_data :: ThreadData
  thread :: pthread_t
  nodes :: node_ptr

text \<open>
  The list head together with the heap its nodes live in and the rest of the process \<open>'w\<close>, which
  is passed to the thread library.
\<close>

record 'w thread_list =
  slh_first :: node_ptr
  node_heap :: "nat \<rightharpoonup> node"
  process :: 'w

section \<open>Macros\<close>

definition SLIST_EMPTY :: "'w thread_list \<Rightarrow> bool" where
  "SLIST_EMPTY h = (slh_first h = None)"

definition SLIST_FIRST :: "'w thread_list \<Rightarrow> node_ptr" where
  "SLIST_FIRST h = slh_first h"

definition deref :: "node_ptr \<Rightarrow> 'w thread_list \<Rightarrow> fault + nat \<times> node" where
  "deref p h =
     (case p of
        None \<Rightarrow> Inl NullDeref
      | Some x \<Rightarrow> (case node_heap h x of None \<Rightarrow> Inl UseAfterFree | Some n \<Rightarrow> Inr (x, n)))"

definition SLIST_NEXT :: "node_ptr \<Rightarrow> 'w thread_list \<Rightarrow> fault + node_ptr" where
  "SLIST_NEXT elm h = bindE (deref elm h) (\<lambda>(x, n). Inr (nodes n))"

definition set_next :: "node_ptr \<Rightarrow> node_ptr \<Rightarrow> 'w thread_list \<Rightarrow> fault + 'w thread_list" where
  "set_next elm p h =
     bindE (deref elm h) (\<lambda>(x, n). Inr (h\<lparr>node_heap := (node_heap h)(x \<mapsto> n\<lparr>nodes := p\<rparr>)\<rparr>))"

definition SLIST_INIT :: "'w thread_list \<Rightarrow> 'w thread_list" where
  "SLIST_INIT h = h\<lparr>slh_first := None\<rparr>"

definition SLIST_INSERT_HEAD :: "node_ptr \<Rightarrow> 'w thread_list \<Rightarrow> fault + 'w thread_list" where
  "SLIST_INSERT_HEAD elm h =
     bindE (set_next elm (SLIST_FIRST h) h) (\<lambda>h1. Inr (h1\<lparr>slh_first := elm\<rparr>))"

definition SLIST_REMOVE_HEAD :: "'w thread_list \<Rightarrow> fault + 'w thread_list" where
  "SLIST_REMOVE_HEAD h = bindE (SLIST_NEXT (SLIST_FIRST h) h) (\<lambda>p. Inr (h\<lparr>slh_first := p\<rparr>))"

definition SLIST_REMOVE_AFTER :: "node_ptr \<Rightarrow> 'w thread_list \<Rightarrow> fault + 'w thread_list" where
  "SLIST_REMOVE_AFTER elm h =
     bindE (SLIST_NEXT elm h) (\<lambda>q. bindE (SLIST_NEXT q h) (\<lambda>r. set_next elm r h))"

definition SLIST_REMOVE :: "node_ptr \<Rightarrow> 'w thread_list \<Rightarrow> (fault + 'w thread_list) option" where
  "SLIST_REMOVE elm h =
     (if SLIST_FIRST h = elm then Some (SLIST_REMOVE_HEAD h)
      else bindT (find_pred SLIST_NEXT (SLIST_FIRST h) elm h) (\<lambda>curelm. Some (SLIST_REMOVE_AFTER curelm h)))"

definition SLIST_FOREACH_SAFE ::
  "(node_ptr \<Rightarrow> 'c \<times> 'w thread_list \<Rightarrow> (fault + 'c \<times> 'w thread_list) option) \<Rightarrow>
   'c \<times> 'w thread_list \<Rightarrow> (fault + 'c \<times> 'w thread_list) option" where
  "SLIST_FOREACH_SAFE body st = foreach_safe SLIST_NEXT body (SLIST_FIRST (snd st)) st"

section \<open>Allocation\<close>

text \<open>\<open>free\<close> of a node, and the node that a successful \<open>malloc\<close> makes available.\<close>

definition free_node :: "node_ptr \<Rightarrow> 'w thread_list \<Rightarrow> fault + 'w thread_list" where
  "free_node p h =
     (case p of
        None \<Rightarrow> Inr h
      | Some x \<Rightarrow> if node_heap h x = None then Inl BadFree
                  else Inr (h\<lparr>node_heap := (node_heap h)(x := None)\<rparr>))"

section \<open>The list in the heap\<close>

text \<open>\<open>segment H p xs q\<close>: following the links from \<open>p\<close> visits the nodes \<open>xs\<close> and ends at \<open>q\<close>.\<close>

primrec segment :: "(nat \<rightharpoonup> node) \<Rightarrow> node_ptr \<Rightarrow> nat list \<Rightarrow> node_ptr \<Rightarrow> bool" where
  "segment H p [] q \<longleftrightarrow> p = q"
| "segment H p (x # xs) q \<longleftrightarrow>
     p = Some x \<and> (case H x of None \<Rightarrow> False | Some n \<Rightarrow> segment H (nodes n) xs q)"

definition is_slist :: "'w thread_list \<Rightarrow> nat list \<Rightarrow> bool" where
  "is_slist h xs \<longleftrightarrow> segment (node_heap h) (slh_first h) xs None \<and> distinct xs"

lemma segment_append:
  "segment H p (xs @ ys) q \<longleftrightarrow> (\<exists>r. segment H p xs r \<and> segment H r ys q)"
  by (induction xs arbitrary: p) (auto split: option.splits)

lemma segment_frame: "x \<notin> set xs \<Longrightarrow> segment (H(x := v)) p xs q = segment H p xs q"
  by (induction xs arbitrary: p) (auto split: option.splits)

lemma segment_head: "segment H p xs None \<Longrightarrow> p = head_ptr xs"
  by (cases xs) simp_all

lemma segment_alloc: "segment H p xs q \<Longrightarrow> x \<in> set xs \<Longrightarrow> H x \<noteq> None"
  by (induction xs arbitrary: p) (auto split: option.splits)

text \<open>The same links, whatever the other fields of the nodes hold.\<close>

definition same_links :: "(nat \<rightharpoonup> node) \<Rightarrow> (nat \<rightharpoonup> node) \<Rightarrow> bool" where
  "same_links H H' \<longleftrightarrow> (\<forall>x. map_option nodes (H x) = map_option nodes (H' x))"

lemma segment_same_links: "same_links H H' \<Longrightarrow> segment H p xs q = segment H' p xs q"
proof (induction xs arbitrary: p)
  case (Cons x xs)
  have "map_option nodes (H x) = map_option nodes (H' x)"
    using Cons.prems by (simp add: same_links_def)
  with Cons show ?case by (cases "H x"; cases "H' x") simp_all
qed simp

lemma lists_split:
  "is_slist h (xs @ x # ys) \<longleftrightarrow>
     segment (node_heap h) (slh_first h) xs (Some x) \<and>
     (\<exists>n. node_heap h x = Some n \<and> nodes n = head_ptr ys \<and> segment (node_heap h) (head_ptr ys) ys None) \<and>
     distinct (xs @ x # ys)"
proof -
  have tail: "segment (node_heap h) r (x # ys) None \<longleftrightarrow> r = Some x \<and>
      (\<exists>n. node_heap h x = Some n \<and> nodes n = head_ptr ys \<and> segment (node_heap h) (head_ptr ys) ys None)" for r
  proof (cases "node_heap h x")
    case (Some n)
    then show ?thesis using segment_head [of "node_heap h" "nodes n" ys] by auto
  qed simp
  show ?thesis unfolding is_slist_def segment_append tail by blast
qed

lemma lists_first: "is_slist h xs \<Longrightarrow> SLIST_FIRST h = head_ptr xs"
  by (auto simp: is_slist_def SLIST_FIRST_def intro: segment_head)

lemma lists_next: "is_slist h (xs @ x # ys) \<Longrightarrow> SLIST_NEXT (Some x) h = Inr (head_ptr ys)"
  by (auto simp: lists_split SLIST_NEXT_def deref_def)

lemma lists_alloc: "is_slist h xs \<Longrightarrow> x \<in> set xs \<Longrightarrow> \<exists>n. node_heap h x = Some n"
  using segment_alloc by (fastforce simp: is_slist_def)

interpretation slist_walk: traversal is_slist "\<lambda>h. Inr (SLIST_FIRST h)" SLIST_NEXT
  by unfold_locales (simp_all add: lists_first lists_next)

text \<open>
  Removing a listed node takes it out of the list, keeps the payload of every node and leaves the
  node itself allocated.
\<close>

definition payload :: "'w thread_list \<Rightarrow> nat \<rightharpoonup> ThreadData \<times> pthread_t" where
  "payload h = (\<lambda>x. map_option (\<lambda>n. (thread_data n, thread n)) (node_heap h x))"

lemma payload_simps [simp]:
  "payload (h\<lparr>slh_first := p\<rparr>) = payload h"
  "payload (h\<lparr>node_heap := H(x := None)\<rparr>) = (payload (h\<lparr>node_heap := H\<rparr>))(x := None)"
  "payload (h\<lparr>node_heap := H(x \<mapsto> n)\<rparr>) = (payload (h\<lparr>node_heap := H\<rparr>))(x \<mapsto> (thread_data n, thread n))"
  "dom (payload h) = dom (node_heap h)"
  by (auto simp: payload_def)

lemma payload_heap [simp]: "payload (h\<lparr>node_heap := node_heap h\<rparr>) = payload h"
  by (simp add: payload_def)

lemma payload_None: "payload h x = None \<longleftrightarrow> node_heap h x = None"
  by (simp add: payload_def)

lemma payload_relink: "node_heap h y = Some n \<Longrightarrow> (payload h)(y \<mapsto> (thread_data n, thread n)) = payload h"
  by (auto simp: payload_def)

lemma slist_remove_lists:
  assumes "is_slist h (xs @ x # ys)"
  obtains h' where "SLIST_REMOVE (Some x) h = returns h'" and "is_slist h' (xs @ ys)"
    and "payload h' = payload h" and "process h' = process h"
proof (cases xs rule: rev_cases)
  case Nil
  let ?h' = "h\<lparr>slh_first := head_ptr ys\<rparr>"
  have "SLIST_REMOVE (Some x) h = returns ?h'"
    using lists_first [OF assms] lists_next [OF assms] Nil
    by (simp add: SLIST_REMOVE_def SLIST_REMOVE_HEAD_def)
  moreover have "is_slist ?h' (xs @ ys)"
    using assms lists_split [of h "[]" x ys] Nil by (auto simp: is_slist_def)
  ultimately show thesis by (rule that) simp_all
next
  case (snoc ws y)
  then have l: "is_slist h (ws @ y # x # ys)" using assms by simp
  then obtain n where n: "node_heap h y = Some n"
    using lists_alloc by fastforce
  let ?h' = "h\<lparr>node_heap := (node_heap h)(y \<mapsto> n\<lparr>nodes := head_ptr ys\<rparr>)\<rparr>"
  have first: "SLIST_FIRST h = head_ptr (ws @ [y])" "SLIST_FIRST h \<noteq> Some x"
    using lists_first [OF l] l by (cases ws; auto simp: is_slist_def)+
  have "SLIST_NEXT (Some y) h = Inr (Some x)" "SLIST_NEXT (Some x) h = Inr (head_ptr ys)"
    using lists_next [OF l] lists_next [OF assms] by simp_all
  then have "SLIST_REMOVE_AFTER (Some y) h = Inr ?h'"
    using n by (simp add: SLIST_REMOVE_AFTER_def set_next_def deref_def)
  then have "SLIST_REMOVE (Some x) h = returns ?h'"
    using slist_walk.find_pred_listed [of h "[]" ws y x ys] l first by (simp add: SLIST_REMOVE_def is_slist_def)
  moreover have "is_slist ?h' (ws @ y # ys)"
    using l assms lists_split [of h ws y "x # ys"] lists_split [of h xs x ys]
    unfolding lists_split by (auto simp: segment_frame)
  then have "is_slist ?h' (xs @ ys)" using snoc by simp
  ultimately show thesis by (rule that) (simp_all add: n payload_relink)
qed

text \<open>\<^verbatim>\<open>SLIST_REMOVE\<close> followed by \<open>free\<close> of the removed node.\<close>

definition slist_discard :: "node_ptr \<Rightarrow> 'w thread_list \<Rightarrow> (fault + 'w thread_list) option" where
  "slist_discard p h = bindT (SLIST_REMOVE p h) (\<lambda>h1. Some (free_node p h1))"

lemma slist_discard_lists:
  assumes "is_slist h (xs @ x # ys)"
  shows "\<exists>h'. slist_discard (Some x) h = returns h' \<and> is_slist h' (xs @ ys) \<and>
    payload h' = (payload h)(x := None) \<and> process h' = process h"
proof -
  obtain h1 where rem: "SLIST_REMOVE (Some x) h = returns h1" and l: "is_slist h1 (xs @ ys)"
    and pl: "payload h1 = payload h" and pr: "process h1 = process h"
    by (rule slist_remove_lists [OF assms])
  have "x \<in> dom (payload h)" using lists_alloc [OF assms, of x] by auto
  then have "node_heap h1 x \<noteq> None" unfolding pl [symmetric] by auto
  then have "free_node (Some x) h1 = Inr (h1\<lparr>node_heap := (node_heap h1)(x := None)\<rparr>)"
    by (simp add: free_node_def)
  moreover have "x \<notin> set (xs @ ys)" using assms by (simp add: is_slist_def)
  then have "is_slist (h1\<lparr>node_heap := (node_heap h1)(x := None)\<rparr>) (xs @ ys)"
    using l by (simp add: is_slist_def segment_frame del: fun_upd_apply)
  ultimately show ?thesis using rem pl pr by (simp add: slist_discard_def)
qed

lemma slist_insert_lists:
  assumes "is_slist h xs" and "node_heap h x = Some n" and "x \<notin> set xs"
  obtains h' where "SLIST_INSERT_HEAD (Some x) h = Inr h'" and "is_slist h' (x # xs)"
    and "payload h' = payload h" and "process h' = process h"
proof -
  let ?h' = "h\<lparr>node_heap := (node_heap h)(x \<mapsto> n\<lparr>nodes := head_ptr xs\<rparr>), slh_first := Some x\<rparr>"
  have first: "slh_first h = head_ptr xs" using lists_first [OF assms(1)] by (simp add: SLIST_FIRST_def)
  have "SLIST_INSERT_HEAD (Some x) h = Inr ?h'"
    using assms(2) first by (simp add: SLIST_INSERT_HEAD_def set_next_def deref_def SLIST_FIRST_def)
  moreover have "is_slist ?h' (x # xs)"
    using assms(1,3) first by (simp add: is_slist_def segment_frame)
  ultimately show thesis by (rule that) (simp_all add: assms(2) payload_relink)
qed

section \<open>The contract of a linked store\<close>

text \<open>
  What loops that change the list rely on beyond being able to walk it: discarding a node removes it from the list, frees it and changes no other payload.
\<close>

locale linked_store = traversal listed first nxt
  for listed :: "'s \<Rightarrow> nat list \<Rightarrow> bool" and first :: "'s \<Rightarrow> fault + nat option"
    and nxt :: "nat option \<Rightarrow> 's \<Rightarrow> fault + nat option" +
  fixes discard :: "nat option \<Rightarrow> 's \<Rightarrow> (fault + 's) option"
    and load :: "'s \<Rightarrow> nat \<rightharpoonup> 'p"
    and rest :: "'s \<Rightarrow> 'r"
  assumes listed_discard: "listed s (xs @ x # ys) \<Longrightarrow>
          \<exists>s'. discard (Some x) s = returns s' \<and> listed s' (xs @ ys) \<and>
               load s' = (load s)(x := None) \<and> rest s' = rest s"
    and listed_alloc: "listed s xs \<Longrightarrow> set xs \<subseteq> dom (load s)"
    and listed_distinct: "listed s xs \<Longrightarrow> distinct xs"
begin

text \<open>
  The rule for a loop over the list whose body may discard the current node: \<open>Q\<close> relates the
  nodes kept so far, the nodes still to visit, the local variables and the store.
\<close>

lemma foreach_safe_rule:
  assumes step: "\<And>pre x ys c s. Q pre (x # ys) c s \<Longrightarrow> listed s (pre @ x # ys) \<Longrightarrow>
      \<exists>pre' c' s'. body (Some x) (c, s) = returns (c', s') \<and> listed s' (pre' @ ys) \<and> Q pre' ys c' s'"
    and "Q pre xs c s" and "listed s (pre @ xs)"
  shows "\<exists>pre' c' s'. foreach_safe nxt body (head_ptr xs) (c, s) = returns (c', s') \<and>
    listed s' pre' \<and> Q pre' [] c' s'"
  using assms(2,3)
proof (induction xs arbitrary: pre c s)
  case Nil
  then show ?case by (subst foreach_safe.simps) auto
next
  case (Cons x xs)
  from step [OF Cons.prems] obtain pre' c' s' where
    body: "body (Some x) (c, s) = returns (c', s')" and "listed s' (pre' @ xs)" and "Q pre' xs c' s'"
    by blast
  with Cons.IH [of pre' c' s'] listed_next [OF Cons.prems(2)] show ?case
    by (subst foreach_safe.simps) simp
qed

end

interpretation slist: linked_store is_slist "\<lambda>h. Inr (SLIST_FIRST h)" SLIST_NEXT slist_discard payload process
proof
  show "\<exists>s'. slist_discard (Some x) s = returns s' \<and> is_slist s' (xs @ ys) \<and>
      payload s' = (payload s)(x := None) \<and> process s' = process s"
    if "is_slist s (xs @ x # ys)" for s :: "'a thread_list" and xs x ys
    using that by (rule slist_discard_lists)
  show "is_slist s xs \<Longrightarrow> set xs \<subseteq> dom (payload s)" for s :: "'a thread_list" and xs
    by (auto dest: lists_alloc)
  show "is_slist s xs \<Longrightarrow> distinct xs" for s :: "'a thread_list" and xs
    by (simp add: is_slist_def)
qed

end
