(* ===== verification/Worker.thy ===== *)
theory Worker
  imports Socket_Client Slist
begin

text \<open>
  The threads of the server and its signal handlers, \<^verbatim>\<open>server/src/main.c\<close>: the worker that serves one
  client, the worker woken by the timer, and the handlers of the termination and timer signals.
\<close>

section \<open>The result file mutex\<close>

text \<open>Locking a mutex that is held waits, here forever: only the caller runs.\<close>

definition pthread_mutex_lock :: "('w, unit) proc" where
  "pthread_mutex_lock w =
     (if result_file_mutex w then None else returns ((), w\<lparr>result_file_mutex := True\<rparr>))"

definition pthread_mutex_unlock :: "('w, unit) proc" where
  "pthread_mutex_unlock w =
     (if result_file_mutex w then returns ((), w\<lparr>result_file_mutex := False\<rparr>) else Some (Inl BadUnlock))"

section \<open>The data transfer worker\<close>

text \<open>
  The worker's argument points to its \<^verbatim>\<open>ThreadData\<close>; the value afterwards is the result. The
  initial bytes of the stack buffer are the argument \<open>recv_buffer\<close>. Every path ends in the same
  way (\<open>worker_end\<close>): the mutex is released, the connection closed and the status stored.
\<close>

definition worker_end :: "'w posix \<Rightarrow> ThreadData \<Rightarrow> ThreadStatus \<Rightarrow> ('w, ThreadData) proc" where
  "worker_end S td status =
     bindP pthread_mutex_unlock (\<lambda>_.
     bindP (sys_close S (client_fd td)) (\<lambda>_. retP (td\<lparr>thread_status := status\<rparr>)))"

definition worker_reply :: "'w posix \<Rightarrow> ThreadData \<Rightarrow> ('w, ThreadData) proc" where
  "worker_reply S td =
     bindP pthread_mutex_lock (\<lambda>_.
     bindP (socket_client_send_file S RESULT_FILE (client_fd td)) (\<lambda>r.
       if r = - 1 then worker_end S td FAILED else worker_end S td SUCCEEDED))"

definition data_transfer_worker ::
  "'w posix \<Rightarrow> ThreadData \<Rightarrow> byte list \<Rightarrow> ('w, ThreadData) proc" where
  "data_transfer_worker S arg recv_buffer =
     (let td = arg\<lparr>thread_status := RUNNING\<rparr> in
      bindP pthread_mutex_lock (\<lambda>_.
      bindP (socket_client_receive_and_write_data S RESULT_FILE (client_fd td) recv_buffer) (\<lambda>r.
        if r = - 1 then worker_end S td FAILED
        else bindP pthread_mutex_unlock (\<lambda>_. worker_reply S td))))"

section \<open>The timestamp worker\<close>

text \<open>
  In the build with a plain result file, a timestamp is appended to it while the mutex is held; a
  failure is only logged.
\<close>

definition log_timestamp_append :: "'w posix \<Rightarrow> string \<Rightarrow> byte list \<Rightarrow> ('w, unit) proc" where
  "log_timestamp_append S path time_string =
     bindP pthread_mutex_lock (\<lambda>_.
     bindP (append_to_file S path time_string (of_nat (length time_string))) (\<lambda>_. pthread_mutex_unlock))"

text \<open>
  The loop of the timestamp worker. \<^verbatim>\<open>strftime\<close> is given the 128 bytes of the buffer and yields the
  string, which is empty for an error; \<^verbatim>\<open>strcat\<close> needs two more bytes. With the character device as
  result file the string is then dropped. \<open>use_device\<close> is the value of \<^verbatim>\<open>USE_AESD_CHAR_DEVICE\<close>.
\<close>

partial_function (option) log_timestamp_loop ::
  "'w posix \<Rightarrow> int \<Rightarrow> 'w globals \<Rightarrow> (fault + unit \<times> 'w globals) option" where
  "log_timestamp_loop S use_device w =
     (if \<not> config_is_terminated w then
        bindT (sys_clock S w) (\<lambda>(log_timestamp, w1).
        bindT (sys_localtime S log_timestamp w1) (\<lambda>(timestamp_info, w2).
          case timestamp_info of
            None \<Rightarrow> log_timestamp_loop S use_device w2
          | Some tm \<Rightarrow>
              bindT (sys_strftime S 128 tm w2) (\<lambda>(time_string, w3).
                if time_string = [] then log_timestamp_loop S use_device w3
                else if length time_string + 2 > 128 then Some (Inl OutOfBounds)
                else
                  bindT (if use_device \<noteq> 1 then log_timestamp_append S (result_file use_device) (time_string @ [10]) w3
                         else returns ((), w3)) (\<lambda>(_, w4).
                  bindT (sys_sem_wait S w4) (\<lambda>(_, w5). log_timestamp_loop S use_device w5)))))
      else returns ((), w))"

definition log_timestamp_worker :: "'w posix \<Rightarrow> int \<Rightarrow> ('w, unit) proc" where
  "log_timestamp_worker S use_device = bindP (sys_sem_wait S) (\<lambda>_. log_timestamp_loop S use_device)"

section \<open>Signal handlers\<close>

definition sem_post :: "'w globals \<Rightarrow> 'w globals" where
  "sem_post w = w\<lparr>timestamp_semaphore := Suc (timestamp_semaphore w)\<rparr>"

definition sigint_handler :: "'w globals \<Rightarrow> 'w globals" where
  "sigint_handler w = sem_post (config_set_is_terminated w)"

definition sigusr1_handler :: "'w globals \<Rightarrow> 'w globals" where
  "sigusr1_handler w = sem_post w"

text \<open>
  A timestamp is written while the mutex is held, and the mutex is free afterwards, whether or not
  the file could be written.
\<close>

lemma log_timestamp_append_law:
  assumes "\<not> result_file_mutex w"
    and "append_to_file S path time_string (of_nat (length time_string)) (w\<lparr>result_file_mutex := True\<rparr>) = returns (r, w')"
    and "result_file_mutex w'"
  shows "log_timestamp_append S path time_string w = returns ((), w'\<lparr>result_file_mutex := False\<rparr>)"
  using assms by (simp add: log_timestamp_append_def pthread_mutex_lock_def pthread_mutex_unlock_def bindP_def)

end
