(* ===== verification/Thread_List.thy ===== *)
theory Thread_List
  imports Slist "HOL-Library.Sublist"
begin

text \<open>
  The server's list of worker threads: \<^verbatim>\<open>slist_free\<close>, \<^verbatim>\<open>slist_join_completed_threads\<close> and
  \<^verbatim>\<open>slist_join_threads\<close> of \<^verbatim>\<open>server/src/utilities.c\<close>. \<^verbatim>\<open>pthread_join\<close> is the argument \<open>J\<close>; while
  it waits, the other threads of the process run and store their status in their list nodes.
\<close>

section \<open>Operations\<close>

type_synonym 'w joiner = "pthread_t \<Rightarrow> 'w thread_list \<Rightarrow> int \<times> 'w thread_list"

text \<open>Joining the thread of a node, then removing the node from the list and freeing it.\<close>

definition join_and_remove ::
  "'w joiner \<Rightarrow> node_ptr \<Rightarrow> bool \<times> 'w thread_list \<Rightarrow> (fault + bool \<times> 'w thread_list) option" where
  "join_and_remove J slist_node = (\<lambda>(is_error, h).
     bindT (Some (deref slist_node h)) (\<lambda>(x, n).
       let (pthread_join_result, h1) = J (thread n) h;
           is_error' = (if pthread_join_result \<noteq> 0 then True else is_error)
       in bindT (slist_discard slist_node h1) (\<lambda>h2. returns (is_error', h2))))"

definition join_if_completed ::
  "'w joiner \<Rightarrow> node_ptr \<Rightarrow> bool \<times> 'w thread_list \<Rightarrow> (fault + bool \<times> 'w thread_list) option" where
  "join_if_completed J slist_node = (\<lambda>(is_error, h).
     bindT (Some (deref slist_node h)) (\<lambda>(x, n).
       case thread_status (thread_data n) of
         UNITITIALIZED \<Rightarrow> returns (is_error, h)
       | RUNNING \<Rightarrow> returns (is_error, h)
       | FAILED \<Rightarrow> join_and_remove J slist_node (True, h)
       | SUCCEEDED \<Rightarrow> join_and_remove J slist_node (is_error, h)))"

definition slist_join_completed_threads ::
  "'w joiner \<Rightarrow> 'w thread_list \<Rightarrow> (fault + bool \<times> 'w thread_list) option" where
  "slist_join_completed_threads J h = SLIST_FOREACH_SAFE (join_if_completed J) (False, h)"

definition slist_join_threads ::
  "'w joiner \<Rightarrow> 'w thread_list \<Rightarrow> (fault + bool \<times> 'w thread_list) option" where
  "slist_join_threads J h = SLIST_FOREACH_SAFE (join_and_remove J) (False, h)"

partial_function (option) slist_free :: "'w thread_list \<Rightarrow> (fault + 'w thread_list) option" where
  "slist_free h =
     (if SLIST_EMPTY h then returns h
      else bindT (slist_discard (SLIST_FIRST h) h) slist_free)"

section \<open>Interference while waiting\<close>

text \<open>
  A worker thread only ever stores its own status, and stores nothing after SUCCEEDED or FAILED.
  So a node keeps its thread and client descriptor, and its status once completed.
\<close>

fun completed :: "ThreadStatus \<Rightarrow> bool" where
  "completed SUCCEEDED = True"
| "completed FAILED = True"
| "completed UNITITIALIZED = False"
| "completed RUNNING = False"

fun progressed :: "(ThreadData \<times> pthread_t) option \<Rightarrow> (ThreadData \<times> pthread_t) option \<Rightarrow> bool" where
  "progressed None None = True"
| "progressed (Some (d, t)) (Some (d', t')) \<longleftrightarrow>
     t' = t \<and> client_fd d' = client_fd d \<and>
     (completed (thread_status d) \<longrightarrow> thread_status d' = thread_status d)"
| "progressed None (Some _) = False"
| "progressed (Some _) None = False"

lemma progressed_refl [simp]: "progressed p p"
  by (cases p) auto

lemma progressed_trans: "progressed p q \<Longrightarrow> progressed q r \<Longrightarrow> progressed p r"
  by (cases p; cases q; cases r) auto

lemma progressed_None [simp]: "progressed None p \<longleftrightarrow> p = None" "progressed p None \<longleftrightarrow> p = None"
  by (cases p; simp)+

lemma progressed_Some: "progressed (Some (d, t)) q \<longleftrightarrow>
   (\<exists>d'. q = Some (d', t) \<and> client_fd d' = client_fd d \<and>
      (completed (thread_status d) \<longrightarrow> thread_status d' = thread_status d))"
  by (cases q) auto

text \<open>
  What the thread library's documentation and the worker code give: waiting for a thread changes
  no link of the list and lets every node progress.
\<close>

definition join_ok :: "'w joiner \<Rightarrow> bool" where
  "join_ok J \<longleftrightarrow> (\<forall>t h. slh_first (snd (J t h)) = slh_first h \<and>
     same_links (node_heap h) (node_heap (snd (J t h))) \<and>
     (\<forall>x. progressed (payload h x) (payload (snd (J t h)) x)))"

lemma join_keeps_list: "join_ok J \<Longrightarrow> is_slist (snd (J t h)) xs = is_slist h xs"
  using segment_same_links by (fastforce simp: join_ok_def is_slist_def)

lemma deref_listed:
  assumes "is_slist h (xs @ x # ys)"
  obtains n where "deref (Some x) h = Inr (x, n)" and "payload h x = Some (thread_data n, thread n)"
  using lists_alloc [OF assms, of x] by (auto simp: deref_def payload_def)

lemma join_and_remove_step:
  assumes "join_ok J" and "is_slist h (xs @ x # ys)"
  obtains r h' where "join_and_remove J (Some x) (c, h) = returns (c \<or> r, h')"
    and "is_slist h' (xs @ ys)" and "payload h' x = None"
    and "\<forall>y. y \<noteq> x \<longrightarrow> progressed (payload h y) (payload h' y)"
proof -
  obtain n where n: "deref (Some x) h = Inr (x, n)" by (rule deref_listed [OF assms(2)])
  obtain r h1 where J: "J (thread n) h = (r, h1)" by (cases "J (thread n) h")
  then have "is_slist h1 (xs @ x # ys)"
    using assms join_keeps_list [of J "thread n" h] by simp
  from slist_discard_lists [OF this] obtain h2 where
    d: "slist_discard (Some x) h1 = returns h2" "is_slist h2 (xs @ ys)" "payload h2 = (payload h1)(x := None)"
    by auto
  have "\<forall>y. progressed (payload h y) (payload (snd (J (thread n) h)) y)"
    using assms(1) unfolding join_ok_def by blast
  then have "\<forall>y. y \<noteq> x \<longrightarrow> progressed (payload h y) (payload h2 y)"
    using J d(3) by simp
  moreover have "join_and_remove J (Some x) (c, h) = returns (c \<or> r \<noteq> 0, h2)"
    using n J d(1) by (simp add: join_and_remove_def)
  ultimately show thesis using d by (intro that [of "r \<noteq> 0" h2]) simp_all
qed

text \<open>The status a node had in a given state.\<close>

definition status_in :: "'w thread_list \<Rightarrow> nat \<Rightarrow> ThreadStatus" where
  "status_in h x = (case payload h x of Some (d, _) \<Rightarrow> thread_status d | None \<Rightarrow> UNITITIALIZED)"

lemma join_if_completed_cases:
  assumes "is_slist h (xs @ x # ys)"
  shows "join_if_completed J (Some x) (c, h) =
    (if completed (status_in h x) then join_and_remove J (Some x) (c \<or> status_in h x = FAILED, h)
     else returns (c, h))"
proof -
  obtain n where "deref (Some x) h = Inr (x, n)" and "payload h x = Some (thread_data n, thread n)"
    by (rule deref_listed [OF assms])
  then show ?thesis
    by (cases "thread_status (thread_data n)") (simp_all add: join_if_completed_def status_in_def)
qed

lemma progressed_completed:
  assumes "progressed (payload h x) (payload h' x)" and "completed (status_in h x)"
  shows "status_in h' x = status_in h x"
  using assms by (auto simp: status_in_def progressed_Some split: option.splits)

section \<open>Loop invariants\<close>

text \<open>
  While the list \<open>xs0\<close> of the state \<open>h0\<close> is traversed: \<open>pre\<close> are the visited nodes that were
  kept, \<open>ys\<close> the nodes to come, \<open>c\<close> the error flag.
\<close>

definition join_progress ::
  "'w thread_list \<Rightarrow> nat list \<Rightarrow> (nat \<Rightarrow> bool) \<Rightarrow> nat list \<Rightarrow> nat list \<Rightarrow> bool \<Rightarrow> 'w thread_list \<Rightarrow> bool" where
  "join_progress h0 xs0 E pre ys c h \<longleftrightarrow>
     (\<exists>visited. xs0 = visited @ ys \<and> subseq pre visited \<and>
        dom (node_heap h) = dom (node_heap h0) - (set visited - set pre) \<and>
        (\<forall>x \<in> dom (node_heap h). progressed (payload h0 x) (payload h x)) \<and>
        (\<forall>x \<in> set pre. \<not> completed (status_in h0 x)) \<and>
        ((\<exists>x \<in> set visited. E x) \<longrightarrow> c))"

lemma join_progress_init: "join_progress h0 xs0 E [] xs0 False h0"
  by (simp add: join_progress_def)

lemma listed_in_heap: "is_slist h (pre @ x # ys) \<Longrightarrow> x \<in> dom (node_heap h)"
  using lists_alloc [of h "pre @ x # ys" x] by auto

lemma join_progress_keep:
  assumes inv: "join_progress h0 xs0 E pre (x # ys) c h" and "distinct xs0" and "is_slist h (pre @ x # ys)"
    and stays: "\<not> completed (status_in h x)" and E: "E x \<Longrightarrow> completed (status_in h0 x)"
  shows "join_progress h0 xs0 E (pre @ [x]) ys c h"
proof -
  from inv obtain visited where v: "xs0 = visited @ x # ys" "subseq pre visited"
      "dom (node_heap h) = dom (node_heap h0) - (set visited - set pre)"
    and p: "\<forall>x \<in> dom (node_heap h). progressed (payload h0 x) (payload h x)"
    and q: "\<forall>x \<in> set pre. \<not> completed (status_in h0 x)" "(\<exists>x \<in> set visited. E x) \<longrightarrow> c"
    unfolding join_progress_def by blast
  have "progressed (payload h0 x) (payload h x)"
    using p listed_in_heap [OF assms(3)] by blast
  then have "\<not> completed (status_in h0 x)" using stays progressed_completed by metis
  moreover have "set (visited @ [x]) - set (pre @ [x]) = set visited - set pre"
    using v(1) assms(2) by auto
  ultimately show ?thesis
    unfolding join_progress_def using v p q E by (intro exI [of _ "visited @ [x]"]) auto
qed

lemma join_progress_remove:
  assumes inv: "join_progress h0 xs0 E pre (x # ys) c h" and "distinct xs0" and "is_slist h (pre @ x # ys)"
    and gone: "payload h' x = None" and other: "\<forall>y. y \<noteq> x \<longrightarrow> progressed (payload h y) (payload h' y)"
    and c: "c \<or> E x \<Longrightarrow> c'"
  shows "join_progress h0 xs0 E pre ys c' h'"
proof -
  from inv obtain visited where v: "xs0 = visited @ x # ys" "subseq pre visited"
      "dom (node_heap h) = dom (node_heap h0) - (set visited - set pre)"
    and p: "\<forall>x \<in> dom (node_heap h). progressed (payload h0 x) (payload h x)"
    and q: "\<forall>x \<in> set pre. \<not> completed (status_in h0 x)" "(\<exists>x \<in> set visited. E x) \<longrightarrow> c"
    unfolding join_progress_def by blast
  have "payload h' y = None \<longleftrightarrow> payload h y = None" if "y \<noteq> x" for y
    using other that by (cases "payload h y"; cases "payload h' y") auto
  then have "dom (payload h') = dom (payload h) - {x}" 
    using gone unfolding set_eq_iff Diff_iff domIff singleton_iff by metis
  then have d: "dom (node_heap h') = dom (node_heap h) - {x}" by simp
  then have "dom (node_heap h') = dom (node_heap h0) - (set (visited @ [x]) - set pre)"
    using v assms(2,3) by (auto simp: is_slist_def)
  moreover have "\<forall>y \<in> dom (node_heap h'). progressed (payload h0 y) (payload h' y)"
    using d p other progressed_trans by (metis Diff_iff singletonI)
  moreover have "subseq pre (visited @ [x])" using v(2) by (rule subseq_rev_drop_many)
  ultimately show ?thesis
    unfolding join_progress_def using v(1) q c by (intro exI [of _ "visited @ [x]"]) auto
qed

lemma join_completed_outcome:
  assumes J: "join_ok J" and xs: "is_slist h xs"
  obtains is_error h' ys where "slist_join_completed_threads J h = returns (is_error, h')"
    and "is_slist h' ys" and "join_progress h xs (\<lambda>x. status_in h x = FAILED) ys [] is_error h'"
    and "\<forall>x \<in> set ys. \<not> completed (status_in h x)"
proof -
  let ?Q = "join_progress h xs (\<lambda>x. status_in h x = FAILED)"
  have dist: "distinct xs" by (rule slist.listed_distinct [OF xs])
  have "\<exists>ys c' h'. foreach_safe SLIST_NEXT (join_if_completed J) (head_ptr xs) (False, h) = returns (c', h') \<and>
      is_slist h' ys \<and> ?Q ys [] c' h'"
  proof (rule slist.foreach_safe_rule [where pre = "[]"])
    fix pre x ys c g
    assume Q: "?Q pre (x # ys) c g" and g: "is_slist g (pre @ x # ys)"
    show "\<exists>pre' c' g'. join_if_completed J (Some x) (c, g) = returns (c', g') \<and>
        is_slist g' (pre' @ ys) \<and> ?Q pre' ys c' g'"
    proof (cases "completed (status_in g x)")
      case False
      have "?Q (pre @ [x]) ys c g"
        by (rule join_progress_keep [OF Q dist g False]) simp
      moreover have "join_if_completed J (Some x) (c, g) = returns (c, g)"
        using False unfolding join_if_completed_cases [OF g] by simp
      moreover have "is_slist g ((pre @ [x]) @ ys)" using g by simp
      ultimately show ?thesis by blast
    next
      case True
      obtain r g' where step: "join_and_remove J (Some x) (c \<or> status_in g x = FAILED, g) =
            returns ((c \<or> status_in g x = FAILED) \<or> r, g')"
        and g': "is_slist g' (pre @ ys)" "payload g' x = None"
          "\<forall>y. y \<noteq> x \<longrightarrow> progressed (payload g y) (payload g' y)"
        by (rule join_and_remove_step [OF J g])
      have "progressed (payload h x) (payload g x)"
        using Q listed_in_heap [OF g] by (auto simp: join_progress_def)
      then have "status_in h x = FAILED \<Longrightarrow> status_in g x = FAILED"
        using progressed_completed [of h x g] by simp
      then have "?Q pre ys ((c \<or> status_in g x = FAILED) \<or> r) g'"
        by (intro join_progress_remove [OF Q dist g g'(2,3)]) auto
      moreover have "join_if_completed J (Some x) (c, g) = returns ((c \<or> status_in g x = FAILED) \<or> r, g')"
        using step True unfolding join_if_completed_cases [OF g] by simp
      ultimately show ?thesis using g'(1) by blast
    qed
  qed (use xs join_progress_init in simp_all)
  then obtain ys c' h' where "foreach_safe SLIST_NEXT (join_if_completed J) (head_ptr xs) (False, h) = returns (c', h')"
    and ys: "is_slist h' ys" "?Q ys [] c' h'" by blast
  then have "slist_join_completed_threads J h = returns (c', h')"
    using lists_first [OF xs] by (simp add: slist_join_completed_threads_def SLIST_FOREACH_SAFE_def)
  from this ys show thesis by (rule that) (use ys(2) in \<open>auto simp: join_progress_def\<close>)
qed

lemma join_threads_outcome:
  assumes J: "join_ok J" and xs: "is_slist h xs"
  obtains is_error h' where "slist_join_threads J h = returns (is_error, h')"
    and "is_slist h' []" and "dom (node_heap h') = dom (node_heap h) - set xs"
proof -
  let ?Q = "\<lambda>pre ys c g. pre = [] \<and> join_progress h xs (\<lambda>x. False) [] ys c g"
  have dist: "distinct xs" by (rule slist.listed_distinct [OF xs])
  have "\<exists>ys c' h'. foreach_safe SLIST_NEXT (join_and_remove J) (head_ptr xs) (False, h) = returns (c', h') \<and>
      is_slist h' ys \<and> ?Q ys [] c' h'"
  proof (rule slist.foreach_safe_rule [where pre = "[]" and Q = ?Q])
    fix pre x ys c g
    assume Q: "?Q pre (x # ys) c g" and g: "is_slist g (pre @ x # ys)"
    obtain r g' where step: "join_and_remove J (Some x) (c, g) = returns (c \<or> r, g')"
      and g': "is_slist g' (pre @ ys)" "payload g' x = None"
        "\<forall>y. y \<noteq> x \<longrightarrow> progressed (payload g y) (payload g' y)"
      by (rule join_and_remove_step [OF J g])
    have "?Q pre ys (c \<or> r) g'"
      using Q g by (auto intro: join_progress_remove [OF _ dist _ g'(2,3)])
    with step g'(1) show "\<exists>pre' c' g'. join_and_remove J (Some x) (c, g) = returns (c', g') \<and>
        is_slist g' (pre' @ ys) \<and> ?Q pre' ys c' g'" by blast
  qed (use xs join_progress_init in simp_all)
  then obtain c' h' where "foreach_safe SLIST_NEXT (join_and_remove J) (head_ptr xs) (False, h) = returns (c', h')"
    and h': "is_slist h' []" "join_progress h xs (\<lambda>x. False) [] [] c' h'" by blast
  then have "slist_join_threads J h = returns (c', h')"
    using lists_first [OF xs] by (simp add: slist_join_threads_def SLIST_FOREACH_SAFE_def)
  from this h'(1) show thesis by (rule that) (use h'(2) in \<open>auto simp: join_progress_def\<close>)
qed

lemma slist_free_outcome:
  assumes "is_slist h xs"
  obtains h' where "slist_free h = returns h'" and "is_slist h' []"
    and "dom (node_heap h') = dom (node_heap h) - set xs" and "process h' = process h"
  using assms
proof (induction xs arbitrary: h thesis)
  case Nil
  then have "SLIST_EMPTY h" by (simp add: is_slist_def SLIST_EMPTY_def)
  with Nil show ?case by (subst (asm) slist_free.simps) simp
next
  case (Cons x xs)
  have first: "SLIST_FIRST h = Some x" "\<not> SLIST_EMPTY h"
    using lists_first [OF Cons.prems(2)] by (simp_all add: SLIST_EMPTY_def SLIST_FIRST_def)
  from slist_discard_lists [of h "[]" x xs] Cons.prems obtain h1 where
    h1: "slist_discard (Some x) h = returns h1" "is_slist h1 xs" "payload h1 = (payload h)(x := None)"
      "process h1 = process h" by auto
  have "dom (payload h1) = dom (payload h) - {x}" by (simp add: h1(3) del: payload_simps)
  then have d: "dom (node_heap h1) = dom (node_heap h) - {x}" by simp
  obtain h' where "slist_free h1 = returns h'" "is_slist h' []"
    "dom (node_heap h') = dom (node_heap h1) - set xs" "process h' = process h1"
    using Cons.IH [OF _ h1(2)] by blast
  with h1 first d show ?case
    by (intro Cons.prems(1) [of h']) (subst slist_free.simps, auto)
qed

section \<open>Joining without interference\<close>

text \<open>
  A thread library in which the result of a join depends on the thread alone, and which records
  the joins in the state of the process with \<open>note\<close>.
\<close>

definition quiet_join :: "(pthread_t \<Rightarrow> int) \<Rightarrow> (pthread_t \<Rightarrow> 'w \<Rightarrow> 'w) \<Rightarrow> 'w joiner" where
  "quiet_join res note_join = (\<lambda>t h. (res t, h\<lparr>process := note_join t (process h)\<rparr>))"

lemma quiet_join_ok: "join_ok (quiet_join res note_join)"
  by (simp add: join_ok_def quiet_join_def same_links_def payload_def)

definition thread_in :: "'w thread_list \<Rightarrow> nat \<Rightarrow> pthread_t" where
  "thread_in h x = (case payload h x of Some (_, t) \<Rightarrow> t | None \<Rightarrow> 0)"

lemma quiet_join_and_remove:
  assumes "is_slist h (xs @ x # ys)"
  obtains h' where "join_and_remove (quiet_join res note_join) (Some x) (c, h) =
      returns (c \<or> res (thread_in h x) \<noteq> 0, h')"
    and "is_slist h' (xs @ ys)" and "payload h' = (payload h)(x := None)"
    and "process h' = note_join (thread_in h x) (process h)"
proof -
  obtain n where n: "deref (Some x) h = Inr (x, n)" "payload h x = Some (thread_data n, thread n)"
    by (rule deref_listed [OF assms])
  let ?h1 = "h\<lparr>process := note_join (thread n) (process h)\<rparr>"
  have "is_slist ?h1 (xs @ x # ys)" and "payload ?h1 = payload h"
    using assms by (simp_all add: is_slist_def payload_def)
  with slist_discard_lists [of ?h1 xs x ys] obtain h' where
    "slist_discard (Some x) ?h1 = returns h'" "is_slist h' (xs @ ys)" "payload h' = (payload h)(x := None)"
      "process h' = note_join (thread n) (process h)" by auto
  with n show thesis
    by (intro that [of h']) (simp_all add: join_and_remove_def quiet_join_def thread_in_def)
qed

text \<open>
  A traversal that keeps the nodes with \<open>keep\<close> and joins and removes the others, with an error
  for those with \<open>err\<close>: the state after part of the list.
\<close>

definition quiet_inv ::
  "'w thread_list \<Rightarrow> nat list \<Rightarrow> (nat \<Rightarrow> bool) \<Rightarrow> (nat \<Rightarrow> bool) \<Rightarrow> (pthread_t \<Rightarrow> 'w \<Rightarrow> 'w) \<Rightarrow>
   nat list \<Rightarrow> nat list \<Rightarrow> bool \<Rightarrow> 'w thread_list \<Rightarrow> bool" where
  "quiet_inv h xs keep err note_join pre ys c g \<longleftrightarrow>
     (\<exists>visited. xs = visited @ ys \<and> pre = filter keep visited \<and>
        payload g = payload h |` (- {x \<in> set visited. \<not> keep x}) \<and>
        c = (\<exists>x \<in> set visited. \<not> keep x \<and> err x) \<and>
        process g = fold note_join (map (thread_in h) (filter (\<lambda>x. \<not> keep x) visited)) (process h))"

lemma quiet_inv_init: "quiet_inv h xs keep err note_join [] xs False h"
  by (simp add: quiet_inv_def restrict_map_def)

lemma quiet_inv_payload:
  "quiet_inv h xs keep err note_join pre (x # ys) c g \<Longrightarrow> distinct xs \<Longrightarrow> payload g x = payload h x"
  by (auto simp: quiet_inv_def)

lemma quiet_inv_keep:
  assumes "quiet_inv h xs keep err note_join pre (x # ys) c g" and "keep x"
  shows "quiet_inv h xs keep err note_join (pre @ [x]) ys c g"
proof -
  from assms(1) obtain visited where v: "xs = visited @ x # ys" "pre = filter keep visited"
    "payload g = payload h |` (- {x \<in> set visited. \<not> keep x})"
    "c = (\<exists>x \<in> set visited. \<not> keep x \<and> err x)"
    "process g = fold note_join (map (thread_in h) (filter (\<lambda>x. \<not> keep x) visited)) (process h)"
    unfolding quiet_inv_def by blast
  have "{y \<in> set (visited @ [x]). \<not> keep y} = {y \<in> set visited. \<not> keep y}" using assms(2) by auto
  then show ?thesis
    unfolding quiet_inv_def using v assms(2) by (intro exI [of _ "visited @ [x]"]) simp
qed

lemma quiet_inv_remove:
  assumes "quiet_inv h xs keep err note_join pre (x # ys) c g" and "\<not> keep x"
    and "payload g' = (payload g)(x := None)" and "process g' = note_join (thread_in h x) (process g)"
  shows "quiet_inv h xs keep err note_join pre ys (c \<or> err x) g'"
proof -
  from assms(1) obtain visited where v: "xs = visited @ x # ys" "pre = filter keep visited"
    "payload g = payload h |` (- {x \<in> set visited. \<not> keep x})"
    "c = (\<exists>x \<in> set visited. \<not> keep x \<and> err x)"
    "process g = fold note_join (map (thread_in h) (filter (\<lambda>x. \<not> keep x) visited)) (process h)"
    unfolding quiet_inv_def by blast
  have "- {y \<in> set (visited @ [x]). \<not> keep y} = - {y \<in> set visited. \<not> keep y} - {x}" using assms(2) by auto
  then show ?thesis
    unfolding quiet_inv_def using v assms(2-)
    by (intro exI [of _ "visited @ [x]"]) (auto simp: restrict_map_def fun_eq_iff)
qed

lemma quiet_traversal:
  fixes res note_join h and bad :: "nat \<Rightarrow> bool"
  defines "J \<equiv> quiet_join res note_join" and "err \<equiv> \<lambda>x. bad x \<or> res (thread_in h x) \<noteq> 0"
  assumes xs: "is_slist h xs"
    and body: "\<And>pre x ys c g. is_slist g (pre @ x # ys) \<Longrightarrow> payload g x = payload h x \<Longrightarrow>
        body (Some x) (c, g) = (if keep x then returns (c, g) else join_and_remove J (Some x) (c \<or> bad x, g))"
  obtains h' where "SLIST_FOREACH_SAFE body (False, h) = returns (\<exists>x \<in> set xs. \<not> keep x \<and> err x, h')"
    and "is_slist h' (filter keep xs)" and "payload h' = payload h |` (- {x \<in> set xs. \<not> keep x})"
    and "process h' = fold note_join (map (thread_in h) (filter (\<lambda>x. \<not> keep x) xs)) (process h)"
proof -
  let ?Q = "quiet_inv h xs keep err note_join"
  have dist: "distinct xs" by (rule slist.listed_distinct [OF xs])
  have "\<exists>ys c' h'. foreach_safe SLIST_NEXT body (head_ptr xs) (False, h) = returns (c', h') \<and>
      is_slist h' ys \<and> ?Q ys [] c' h'"
  proof (rule slist.foreach_safe_rule [where pre = "[]" and Q = ?Q])
    fix pre x ys c g
    assume Q: "?Q pre (x # ys) c g" and g: "is_slist g (pre @ x # ys)"
    note px = quiet_inv_payload [OF Q dist]
    show "\<exists>pre' c' g'. body (Some x) (c, g) = returns (c', g') \<and> is_slist g' (pre' @ ys) \<and> ?Q pre' ys c' g'"
    proof (cases "keep x")
      case True
      have "body (Some x) (c, g) = returns (c, g)" "is_slist g ((pre @ [x]) @ ys)"
        using body [OF g px] True g by simp_all
      then show ?thesis using quiet_inv_keep [OF Q True] by blast
    next
      case False
      have tx: "thread_in g x = thread_in h x" using px by (simp add: thread_in_def)
      obtain g' where "join_and_remove J (Some x) (c \<or> bad x, g) = returns (c \<or> err x, g')"
        and "is_slist g' (pre @ ys)" and "payload g' = (payload g)(x := None)"
        and "process g' = note_join (thread_in h x) (process g)"
        using quiet_join_and_remove [OF g, of res note_join "c \<or> bad x"]
        unfolding J_def err_def tx disj_assoc by blast
      then show ?thesis using quiet_inv_remove [OF Q False] body [OF g px] False by fastforce
    qed
  qed (use xs quiet_inv_init in simp_all)
  then show thesis
    using lists_first [OF xs] by (auto simp: SLIST_FOREACH_SAFE_def quiet_inv_def intro: that)
qed

section \<open>A concrete list\<close>

definition ex_node :: "nat \<Rightarrow> ThreadStatus \<Rightarrow> node_ptr \<Rightarrow> node" where
  "ex_node i st p = \<lparr>thread_data = \<lparr>client_fd = int i + 4, thread_status = st\<rparr>, thread = 100 + i, nodes = p\<rparr>"

definition ex_list :: "pthread_t list thread_list" where
  "ex_list = \<lparr>slh_first = Some 0,
     node_heap = [0 \<mapsto> ex_node 0 SUCCEEDED (Some 1), 1 \<mapsto> ex_node 1 RUNNING (Some 2), 2 \<mapsto> ex_node 2 FAILED None],
     process = []\<rparr>"

lemma ex_list_ok: "is_slist ex_list [0, 1, 2]"
  by (simp add: is_slist_def ex_list_def ex_node_def)

lemma ex_list_dom: "dom (node_heap ex_list) = {0, 1, 2}"
  unfolding ex_list_def by auto

lemmas list_eval = ex_list_def ex_node_def status_in_def thread_in_def payload_def

section \<open>Properties\<close>

text \<open>
  Property C15. Joining the completed threads returns, without a fault, whatever the other
  threads do to their status in the meantime. The list that remains is a part of the old one in
  the old order; every thread that had completed at the call is gone from it and every node gone
  from it, and no other, has been freed. The error flag is set if some thread had failed.
\<close>

theorem slist_join_completed_threads_safe:
  assumes "join_ok J" and "is_slist h xs"
  shows "\<exists>is_error h' ys. slist_join_completed_threads J h = returns (is_error, h') \<and>
    is_slist h' ys \<and> subseq ys xs \<and> list_all (\<lambda>x. \<not> completed (status_in h x)) ys \<and>
    dom (node_heap h') = dom (node_heap h) - (set xs - set ys) \<and>
    (list_ex (\<lambda>x. status_in h x = FAILED) xs \<longrightarrow> is_error)"
  using assms
proof (rule join_completed_outcome)
  fix is_error h' ys
  assume "slist_join_completed_threads J h = returns (is_error, h')" and "is_slist h' ys"
    and "join_progress h xs (\<lambda>x. status_in h x = FAILED) ys [] is_error h'"
    and "\<forall>x \<in> set ys. \<not> completed (status_in h x)"
  then show ?thesis by (auto simp: join_progress_def list_all_iff list_ex_iff)
qed

theorem slist_join_completed_threads_safe_witness:
  "\<exists>h'. slist_join_completed_threads (quiet_join (\<lambda>_. 0) (\<lambda>t w. w @ [t])) ex_list = returns (True, h')"
  using slist_join_completed_threads_safe [OF quiet_join_ok ex_list_ok, of "\<lambda>_. 0" "\<lambda>t w. w @ [t]"]
  by (auto simp: list_eval)

text \<open>
  Property C16. When no other thread interferes, exactly the completed threads are joined, each
  once and in list order, exactly their nodes are removed and freed, and the result tells whether
  one of them failed or could not be joined.
\<close>

theorem slist_join_completed_threads_exact:
  fixes h :: "'w thread_list"
  assumes "is_slist h xs"
  shows "\<exists>h'. slist_join_completed_threads (quiet_join res note_join) h =
      returns (\<exists>x \<in> set xs. completed (status_in h x) \<and> (status_in h x = FAILED \<or> res (thread_in h x) \<noteq> 0), h') \<and>
    is_slist h' (filter (\<lambda>x. \<not> completed (status_in h x)) xs) \<and>
    payload h' = payload h |` (- {x \<in> set xs. completed (status_in h x)}) \<and>
    process h' = fold note_join (map (thread_in h) (filter (\<lambda>x. completed (status_in h x)) xs)) (process h)"
proof (rule quiet_traversal [OF assms, where keep = "\<lambda>x. \<not> completed (status_in h x)"
      and bad = "\<lambda>x. status_in h x = FAILED" and res = res and note_join = note_join])
  fix pre x ys c and g :: "'w thread_list"
  assume g: "is_slist g (pre @ x # ys)" and "payload g x = payload h x"
  then have "status_in g x = status_in h x" by (simp add: status_in_def)
  then show "join_if_completed (quiet_join res note_join) (Some x) (c, g) =
      (if \<not> completed (status_in h x) then returns (c, g)
       else join_and_remove (quiet_join res note_join) (Some x) (c \<or> status_in h x = FAILED, g))"
    unfolding join_if_completed_cases [OF g] by simp
qed (auto simp: slist_join_completed_threads_def)

theorem slist_join_completed_threads_exact_witness:
  "\<exists>h'. slist_join_completed_threads (quiet_join (\<lambda>_. 0) (\<lambda>t w. w @ [t])) ex_list = returns (True, h') \<and>
    is_slist h' [1] \<and> process h' = [100, 102]"
  using slist_join_completed_threads_exact [OF ex_list_ok, of "\<lambda>_. 0" "\<lambda>t w. w @ [t]"]
  by (auto simp: list_eval)

text \<open>
  Property C17. Waiting for all threads joins every thread once, in list order, whatever its
  status, empties the list and frees all of its nodes and nothing else; the result tells whether a
  join failed.
\<close>

theorem slist_join_threads_exact:
  assumes "is_slist h xs"
  shows "\<exists>h'. slist_join_threads (quiet_join res note_join) h =
      returns (list_ex (\<lambda>x. res (thread_in h x) \<noteq> 0) xs, h') \<and>
    is_slist h' [] \<and> payload h' = payload h |` (- set xs) \<and>
    process h' = fold note_join (map (thread_in h) xs) (process h)"
  by (rule quiet_traversal [OF assms, where keep = "\<lambda>x. False" and bad = "\<lambda>x. False"
        and res = res and note_join = note_join and body = "join_and_remove (quiet_join res note_join)"])
    (auto simp: slist_join_threads_def list_ex_iff)

theorem slist_join_threads_exact_witness:
  "\<exists>h'. slist_join_threads (quiet_join (\<lambda>t. if t = 101 then 3 else 0) (\<lambda>t w. w @ [t])) ex_list =
      returns (True, h') \<and> is_slist h' [] \<and> process h' = [100, 101, 102]"
  using slist_join_threads_exact [OF ex_list_ok, of "\<lambda>t. if t = 101 then 3 else 0" "\<lambda>t w. w @ [t]"]
  by (auto simp: list_eval)

text \<open>
  Property C18. \<^verbatim>\<open>slist_free\<close> ends, without a fault, with an empty list and all of its nodes
  freed and nothing else.
\<close>

theorem slist_free_frees_all:
  assumes "is_slist h xs"
  shows "\<exists>h'. slist_free h = returns h' \<and> is_slist h' [] \<and> dom (node_heap h') = dom (node_heap h) - set xs"
  by (rule slist_free_outcome [OF assms]) auto

theorem slist_free_frees_all_witness:
  "\<exists>h'. slist_free ex_list = returns h' \<and> is_slist h' [] \<and> dom (node_heap h') = {}"
  using slist_free_frees_all [OF ex_list_ok] unfolding ex_list_dom by simp

end
