(* ===== verification/Server_Main.thy ===== *)
theory Server_Main
  imports Socket_Server Worker Thread_List
begin

text \<open>
  The main thread of the server, \<^verbatim>\<open>server/src/main.c\<close>: setting up the socket and the signal
  handlers, the accept loop with its list of worker threads, and the program from its arguments
  to its exit code.
\<close>

section \<open>Setup\<close>

text \<open>A function that may end the process with \<^verbatim>\<open>exit\<close> returns \<open>Exited\<close> in that case.\<close>

datatype 'a outcome = Returned 'a | Exited int

definition setup_socket_server ::
  "'w posix \<Rightarrow> bool \<Rightarrow> int \<Rightarrow> nat option \<Rightarrow> ('w, (int \<times> int \<times> nat option) outcome) proc" where
  "setup_socket_server S execute_as_daemon server_socket server_addrinfo =
     bindP (socket_server_create S server_socket server_addrinfo) (\<lambda>(r, fd, info).
       if r \<noteq> 0 then retP (Returned (- 1, fd, info))
       else if execute_as_daemon then
         bindP (daemonize S) (\<lambda>daemon_result.
           if daemon_result = - 1 then retP (Returned (- 1, fd, info))
           else if daemon_result = 1 then retP (Exited 0)
           else retP (Returned (0, fd, info)))
       else retP (Returned (0, fd, info)))"

definition log_interval :: timespec where
  "log_interval = \<lparr>tv_sec = TIMESTAMP_LOG_INTERVAL_S, tv_nsec = 0\<rparr>"

definition setup_signal_handlers :: "'w posix \<Rightarrow> nat \<Rightarrow> ('w, int \<times> nat) proc" where
  "setup_signal_handlers S timer0 =
     bindP (sys_signal S SIGINT) (\<lambda>ok.
       if \<not> ok then retP (- 1, timer0)
       else bindP (sys_signal S SIGTERM) (\<lambda>ok.
         if \<not> ok then retP (- 1, timer0)
         else bindP (sys_signal S SIGUSR1) (\<lambda>ok.
           if \<not> ok then retP (- 1, timer0)
           else bindP (sys_sem_init S) (\<lambda>r.
             if r \<noteq> 0 then retP (- 1, timer0)
             else bindP (updP (\<lambda>w. w\<lparr>timestamp_semaphore := 0\<rparr>)) (\<lambda>_.
               bindP (sys_timer_create S) (\<lambda>(r, timer).
                 if r \<noteq> 0 then retP (- 1, timer0)
                 else bindP (sys_timer_settime S timer log_interval log_interval) (\<lambda>r.
                   if r \<noteq> 0 then retP (- 1, timer) else retP (0, timer))))))))"

section \<open>The accept loop\<close>

text \<open>
  The main thread owns the list of nodes; \<open>process\<close> of the list state holds the globals. The
  thread library is a parameter: creating a thread for a node, joining a thread, what the other
  threads do while the main thread waits for a connection, the allocation of a node, creating the
  timestamp thread, initialising and destroying the mutex.
\<close>

type_synonym 'w main_state = "'w globals thread_list"

record 'w thread_api =
  th_create :: "nat \<Rightarrow> 'w main_state \<Rightarrow> (int \<times> pthread_t) \<times> 'w main_state"
  th_join :: "'w globals joiner"
  th_run :: "'w main_state \<Rightarrow> 'w main_state"
  th_malloc :: "'w main_state \<Rightarrow> nat option \<times> 'w main_state"
  th_create_logger :: "'w main_state \<Rightarrow> (int \<times> pthread_t) \<times> 'w main_state"
  th_mutex_init :: "'w main_state \<Rightarrow> int \<times> 'w main_state"
  th_mutex_destroy :: "'w main_state \<Rightarrow> int \<times> 'w main_state"

definition on_process :: "('w, 'a) proc \<Rightarrow> 'w main_state \<Rightarrow> (fault + 'a \<times> 'w main_state) option" where
  "on_process m h = bindT (m (process h)) (\<lambda>(x, g). returns (x, h\<lparr>process := g\<rparr>))"

definition terminate :: "'w main_state \<Rightarrow> 'w main_state" where
  "terminate h = h\<lparr>process := config_set_is_terminated (process h)\<rparr>"

definition connection_timeout :: timespec where
  "connection_timeout = \<lparr>tv_sec = 1, tv_nsec = 0\<rparr>"

text \<open>
  Starting the worker of a new connection: the result is the new value of
  \<open>application_result\<close>.
\<close>

definition start_worker ::
  "'w posix \<Rightarrow> 'w thread_api \<Rightarrow> int \<Rightarrow> int \<Rightarrow> 'w main_state \<Rightarrow> (fault + int \<times> 'w main_state) option" where
  "start_worker S T client_socket application_result h =
     (case th_malloc T h of
        (None, h1) \<Rightarrow> Some (Inl NullDeref)
      | (Some x, h1) \<Rightarrow>
          let h2 = h1\<lparr>node_heap := (node_heap h1)(x \<mapsto>
                \<lparr>thread_data = \<lparr>client_fd = client_socket, thread_status = UNITITIALIZED\<rparr>, thread = 0, nodes = None\<rparr>)\<rparr>;
              ((pthread_create_result, thread_id), h3) = th_create T x h2
          in if pthread_create_result \<noteq> 0 then
               bindT (Some (free_node (Some x) h3)) (\<lambda>h4.
               bindT (on_process (sys_close S client_socket) h4) (\<lambda>(_, h5). returns (- 1, terminate h5)))
             else
               bindT (Some (deref (Some x) h3)) (\<lambda>(_, n).
               bindT (Some (SLIST_INSERT_HEAD (Some x) (h3\<lparr>node_heap := (node_heap h3)(x \<mapsto> n\<lparr>thread := thread_id\<rparr>)\<rparr>)))
                 (\<lambda>h4. returns (application_result, h4))))"

text \<open>
  The body of the loop: one wait for a connection and what follows from its result. The variable
  \<^verbatim>\<open>client_socket\<close> keeps its initial value 0 unless the connection was created.
\<close>

definition application_body ::
  "'w posix \<Rightarrow> 'w thread_api \<Rightarrow> int \<Rightarrow> int \<Rightarrow> 'w main_state \<Rightarrow> (fault + int \<times> 'w main_state) option" where
  "application_body S T server_fd application_result h =
     bindT (on_process (socket_client_create_connection S server_fd connection_timeout) h) (\<lambda>((code, fd), h0).
       let h1 = th_run T h0; client_socket = (if code = 0 then fd else 0) in
       if code = - 1 then
         bindT (on_process (sys_close S client_socket) h1) (\<lambda>(_, h2). returns (- 1, terminate h2))
       else if code = 0 then start_worker S T client_socket application_result h1
       else if code = 2 then
         bindT (slist_join_completed_threads (th_join T) h1) (\<lambda>(is_error, h2).
           if is_error then returns (- 1, terminate h2) else returns (application_result, h2))
       else returns (application_result, h1))"

partial_function (option) application_loop ::
  "'w posix \<Rightarrow> 'w thread_api \<Rightarrow> int \<Rightarrow> int \<Rightarrow> 'w main_state \<Rightarrow> (fault + int \<times> 'w main_state) option" where
  "application_loop S T server_fd application_result h =
     (if config_is_terminated (process h) then returns (application_result, h)
      else bindT (application_body S T server_fd application_result h)
             (\<lambda>(r, h1). application_loop S T server_fd r h1))"

definition application ::
  "'w posix \<Rightarrow> 'w thread_api \<Rightarrow> int \<Rightarrow> 'w main_state \<Rightarrow> (fault + int \<times> 'w main_state) option" where
  "application S T server_fd h =
     bindT (application_loop S T server_fd 0 (SLIST_INIT h)) (\<lambda>(application_result, h1).
     bindT (slist_join_threads (th_join T) h1) (\<lambda>(is_error, h2).
     bindT (slist_free h2) (\<lambda>h3. returns (if is_error then - 1 else application_result, h3))))"

section \<open>The program\<close>

definition release ::
  "'w posix \<Rightarrow> nat \<Rightarrow> int \<Rightarrow> nat option \<Rightarrow> 'w main_state \<Rightarrow> (fault + unit \<times> 'w main_state) option" where
  "release S log_timestamp_timer server_socket server_addrinfo =
     on_process (bindP (sys_timer_delete S log_timestamp_timer) (\<lambda>_.
                 bindP (sys_close S server_socket) (\<lambda>_. sys_freeaddrinfo S server_addrinfo)))"

text \<open>
  After the accept loop: the timestamp thread is joined, the result file removed when it is a plain
  one (\<open>use_device\<close> is the value of \<^verbatim>\<open>USE_AESD_CHAR_DEVICE\<close>), the mutex destroyed and everything released.
\<close>

definition finish_server ::
  "'w posix \<Rightarrow> 'w thread_api \<Rightarrow> int \<Rightarrow> pthread_t \<Rightarrow> nat \<Rightarrow> int \<Rightarrow> nat option \<Rightarrow> int \<Rightarrow> 'w main_state \<Rightarrow>
     (fault + int \<times> 'w main_state) option" where
  "finish_server S T use_device timestamp_thread_id log_timestamp_timer server_socket server_addrinfo result h =
     (let (_, h1) = th_join T timestamp_thread_id h in
      bindT (if use_device \<noteq> 1 then on_process (sys_remove S (result_file use_device)) h1 else returns (0, h1)) (\<lambda>(_, h2).
        let (_, h3) = th_mutex_destroy T h2
        in bindT (release S log_timestamp_timer server_socket server_addrinfo h3) (\<lambda>(_, h4). returns (result, h4))))"

text \<open>After the setup: the timestamp thread, the mutex and the accept loop.\<close>

definition run_server ::
  "'w posix \<Rightarrow> 'w thread_api \<Rightarrow> int \<Rightarrow> nat \<Rightarrow> int \<Rightarrow> nat option \<Rightarrow> 'w main_state \<Rightarrow> (fault + int \<times> 'w main_state) option" where
  "run_server S T use_device log_timestamp_timer server_socket server_addrinfo h =
     (let ((pthread_create_result, timestamp_thread_id), h1) = th_create_logger T h in
      if pthread_create_result \<noteq> 0 then
        bindT (release S log_timestamp_timer server_socket server_addrinfo h1) (\<lambda>(_, h2). returns (- 1, h2))
      else
        let (r, h2) = th_mutex_init T h1 in
        if r \<noteq> 0 then
          bindT (release S log_timestamp_timer server_socket server_addrinfo h2) (\<lambda>(_, h3). returns (- 1, h3))
        else
          bindT (application S T server_socket h2) (\<lambda>(result, h3).
            finish_server S T use_device timestamp_thread_id log_timestamp_timer server_socket server_addrinfo result h3))"

text \<open>
  \<^verbatim>\<open>main\<close>: the arguments with the program name first, and the indeterminate initial value of the
  timer variable.
\<close>

definition main ::
  "'w posix \<Rightarrow> 'w thread_api \<Rightarrow> int \<Rightarrow> string list \<Rightarrow> nat \<Rightarrow> 'w main_state \<Rightarrow> (fault + int outcome \<times> 'w main_state) option" where
  "main S T use_device argv timer0 h =
     (let execute_as_daemon = (length argv = 2 \<and> argv ! 1 = ''-d'') in
      if \<not> execute_as_daemon \<and> length argv \<noteq> 1 then returns (Returned 1, h)
      else
        bindT (on_process (setup_socket_server S execute_as_daemon 0 None) h) (\<lambda>(setup, h1).
          case setup of
            Exited code \<Rightarrow> returns (Exited code, h1)
          | Returned (r, server_socket, server_addrinfo) \<Rightarrow>
              if r \<noteq> 0 then
                bindT (on_process (bindP (sys_close S server_socket) (\<lambda>_. sys_freeaddrinfo S server_addrinfo)) h1)
                  (\<lambda>(_, h2). returns (Returned (- 1), h2))
              else
                bindT (on_process (setup_signal_handlers S timer0) h1) (\<lambda>((r, timer), h2).
                  if r \<noteq> 0 then
                    bindT (release S timer server_socket server_addrinfo h2) (\<lambda>(_, h3). returns (Returned (- 1), h3))
                  else
                    bindT (run_server S T use_device timer server_socket server_addrinfo h2)
                      (\<lambda>(result, h3). returns (Returned result, h3)))))"

end
