(* ===== verification/Circular_Buffer.thy ===== *)
theory Circular_Buffer
  imports Prelude
begin

text \<open>
  The ring of write operations: \<^verbatim>\<open>aesd-char-driver/aesd-circular-buffer.c\<close> and
  \<^verbatim>\<open>aesd-circular-buffer.h\<close>. The entry array is a list of ten entries, \<open>in_offs\<close> and
  \<open>out_offs\<close> are 8-bit words as in the struct, sizes and character offsets are 64-bit words,
  so that the unsigned wrap-around in \<open>current_entry->size - 1\<close> is the one of the code.
  The contract of the ring is the locale \<open>write_log\<close>: it holds the last ten entries added.
\<close>

section \<open>Pointers\<close>

text \<open>
  A \<^verbatim>\<open>char *\<close> that the code stores: \<^verbatim>\<open>NULL\<close>, the non-null pointer that the kernel
  allocator gives for a request of zero bytes, or the start of an allocated block.
\<close>

datatype ptr = NULL | ZERO_SIZE_PTR | Block nat

section \<open>Data\<close>

definition AESDCHAR_MAX_WRITE_OPERATIONS_SUPPORTED :: nat where
  "AESDCHAR_MAX_WRITE_OPERATIONS_SUPPORTED = 10"

record aesd_buffer_entry =
  buffptr :: ptr
  entry_size :: size_t

record aesd_circular_buffer =
  entry :: "aesd_buffer_entry list"
  in_offs :: uint8_t
  out_offs :: uint8_t
  full :: bool

abbreviation zero_entry :: aesd_buffer_entry where
  "zero_entry \<equiv> \<lparr>buffptr = NULL, entry_size = 0\<rparr>"

section \<open>Operations\<close>

definition next_idx :: "size_t \<Rightarrow> size_t" where
  "next_idx index =
     (if index + 1 \<ge> of_nat AESDCHAR_MAX_WRITE_OPERATIONS_SUPPORTED then 0 else index + 1)"

definition is_empty :: "aesd_circular_buffer \<Rightarrow> bool" where
  "is_empty buffer \<longleftrightarrow> \<not> full buffer \<and> in_offs buffer = out_offs buffer"

text \<open>
  \<^verbatim>\<open>peek\<close> returns a pointer into the entry array: the model returns the index of that
  entry, and \<open>None\<close> for \<^verbatim>\<open>NULL\<close>. Its warning about a large offset is an empty branch.
\<close>

definition peek :: "aesd_circular_buffer \<Rightarrow> size_t \<Rightarrow> nat option" where
  "peek buffer offset =
     (if is_empty buffer then None
      else Some (unat ((ucast (out_offs buffer) + offset)
                   mod of_nat AESDCHAR_MAX_WRITE_OPERATIONS_SUPPORTED)))"

text \<open>
  The search loop, from the values of \<^verbatim>\<open>peek_idx\<close> and \<^verbatim>\<open>current_char_offset\<close>. The
  result is the index of the returned entry and the value stored through
  \<^verbatim>\<open>entry_offset_byte_rtn\<close>, or \<open>None\<close> for \<^verbatim>\<open>NULL\<close> (nothing stored).
\<close>

function find_entry_loop ::
  "aesd_circular_buffer \<Rightarrow> size_t \<Rightarrow> size_t \<Rightarrow> size_t \<Rightarrow> (nat \<times> size_t) option" where
  "find_entry_loop buffer char_offset peek_idx current_char_offset =
     (if peek_idx < of_nat AESDCHAR_MAX_WRITE_OPERATIONS_SUPPORTED then
        (case peek buffer peek_idx of
           None \<Rightarrow> None
         | Some current_entry \<Rightarrow>
             let current_size = entry_size (entry buffer ! current_entry);
                 current_max_offset = current_char_offset + (current_size - 1)
             in if current_max_offset \<ge> char_offset
                then Some (current_entry, char_offset - current_char_offset)
                else find_entry_loop buffer char_offset (peek_idx + 1)
                       (current_char_offset + current_size))
      else None)"
  by pat_completeness auto
termination
proof (relation "measure (\<lambda>(b, c, i, o'). 10 - unat i)", goal_cases)
  case 1
  show ?case by simp
next
  case (2 buffer char_offset peek_idx current_char_offset current_entry current_size max_offset)
  then have lt: "unat peek_idx < 10"
    by (simp add: AESDCHAR_MAX_WRITE_OPERATIONS_SUPPORTED_def word_less_nat_alt)
  then have "unat (peek_idx + 1) = unat peek_idx + 1"
    by (subst unat_add_size_t) simp_all
  with lt show ?case by simp
qed

definition aesd_circular_buffer_find_entry_offset_for_fpos ::
  "aesd_circular_buffer \<Rightarrow> size_t \<Rightarrow> (nat \<times> size_t) option" where
  "aesd_circular_buffer_find_entry_offset_for_fpos buffer char_offset =
     find_entry_loop buffer char_offset 0 0"

text \<open>
  The new entry is copied to \<^verbatim>\<open>entry[in_offs]\<close>: an index past the array is a fault. The
  returned pointer is the one of the entry that was overwritten, for the caller to free.
\<close>

definition aesd_circular_buffer_add_entry ::
  "aesd_circular_buffer \<Rightarrow> aesd_buffer_entry \<Rightarrow> fault + ptr \<times> aesd_circular_buffer" where
  "aesd_circular_buffer_add_entry buffer add_entry =
     (if entry_size add_entry = 0 then Inr (NULL, buffer)
      else if unat (in_offs buffer) \<ge> length (entry buffer) then Inl OutOfBounds
      else
        let replaced_buffptr =
              (if full buffer then buffptr (entry buffer ! unat (in_offs buffer)) else NULL);
            buffer1 = buffer\<lparr>entry := (entry buffer)[unat (in_offs buffer) := add_entry]\<rparr>;
            buffer2 = buffer1\<lparr>in_offs := ucast (next_idx (ucast (in_offs buffer1)))\<rparr>;
            buffer3 = (if full buffer2 then buffer2\<lparr>out_offs := in_offs buffer2\<rparr>
                       else if in_offs buffer2 = out_offs buffer2 then buffer2\<lparr>full := True\<rparr>
                       else buffer2)
        in Inr (replaced_buffptr, buffer3))"

definition aesd_circular_buffer_init :: "aesd_circular_buffer \<Rightarrow> aesd_circular_buffer" where
  "aesd_circular_buffer_init buffer =
     \<lparr>entry = replicate AESDCHAR_MAX_WRITE_OPERATIONS_SUPPORTED zero_entry,
      in_offs = 0, out_offs = 0, full = False\<rparr>"

text \<open>
  The macro \<^verbatim>\<open>AESD_CIRCULAR_BUFFER_FOREACH\<close>: \<open>body\<close> runs on every slot of the array, in
  index order, whatever the offsets say.
\<close>

function AESD_CIRCULAR_BUFFER_FOREACH ::
  "(aesd_buffer_entry \<Rightarrow> 's \<Rightarrow> fault + 's) \<Rightarrow> aesd_circular_buffer \<Rightarrow> uint8_t \<Rightarrow> 's \<Rightarrow> fault + 's"
where
  "AESD_CIRCULAR_BUFFER_FOREACH body buffer index s =
     (if unat index < AESDCHAR_MAX_WRITE_OPERATIONS_SUPPORTED then
        bindE (body (entry buffer ! unat index) s)
          (\<lambda>s'. AESD_CIRCULAR_BUFFER_FOREACH body buffer (index + 1) s')
      else Inr s)"
  by pat_completeness auto
termination
proof (relation "measure (\<lambda>(f, b, i, s). 10 - unat i)", goal_cases)
  case 1
  show ?case by simp
next
  case (2 body buffer index s s')
  then have lt: "unat index < 10"
    by (simp add: AESDCHAR_MAX_WRITE_OPERATIONS_SUPPORTED_def)
  then have "unat (index + 1) = unat index + 1"
    by (subst unat_add_no_wrap) simp_all
  with lt show ?case by simp
qed

declare find_entry_loop.simps [simp del]
declare AESD_CIRCULAR_BUFFER_FOREACH.simps [simp del]

section \<open>Abstraction and invariant\<close>

text \<open>
  \<open>contents\<close> lists the stored entries, oldest first: the number of them follows from the two
  offsets and the flag. \<open>occupied\<close> and \<open>vacant\<close> split the array.
\<close>

definition ring_count :: "aesd_circular_buffer \<Rightarrow> nat" where
  "ring_count b =
     (if full b then 10 else (unat (in_offs b) + 10 - unat (out_offs b)) mod 10)"

definition contents :: "aesd_circular_buffer \<Rightarrow> aesd_buffer_entry list" where
  "contents b = map (\<lambda>k. entry b ! ((unat (out_offs b) + k) mod 10)) [0..<ring_count b]"

definition occupied :: "aesd_circular_buffer \<Rightarrow> aesd_buffer_entry list" where
  "occupied b = (if full b then entry b else take (unat (in_offs b)) (entry b))"

definition vacant :: "aesd_circular_buffer \<Rightarrow> aesd_buffer_entry list" where
  "vacant b = (if full b then [] else drop (unat (in_offs b)) (entry b))"

text \<open>
  Entries are only ever added, so \<open>out_offs\<close> stays 0 until the ring is full and follows
  \<open>in_offs\<close> from then on; a stored entry is never empty and a free slot is still zero.
\<close>

definition ring_inv :: "aesd_circular_buffer \<Rightarrow> bool" where
  "ring_inv b \<longleftrightarrow>
     length (entry b) = 10 \<and> unat (in_offs b) < 10 \<and> unat (out_offs b) < 10 \<and>
     (full b \<longrightarrow> in_offs b = out_offs b) \<and> (\<not> full b \<longrightarrow> out_offs b = 0) \<and>
     list_all (\<lambda>e. entry_size e \<noteq> 0) (occupied b) \<and>
     list_all (\<lambda>e. e = zero_entry) (vacant b)"

text \<open>Where a byte of the concatenation lies: entry number and offset in that entry.\<close>

fun locate :: "nat list \<Rightarrow> nat \<Rightarrow> (nat \<times> nat) option" where
  "locate [] off = None"
| "locate (s # ss) off =
     (if off < s then Some (0, off) else map_option (apfst Suc) (locate ss (off - s)))"

definition entry_sizes :: "aesd_circular_buffer \<Rightarrow> nat list" where
  "entry_sizes b = map (\<lambda>e. unat (entry_size e)) (contents b)"

lemmas ring_defs = ring_inv_def occupied_def vacant_def

section \<open>The array as a list\<close>

lemma max_ops [simp]: "AESDCHAR_MAX_WRITE_OPERATIONS_SUPPORTED = 10"
  by (rule AESDCHAR_MAX_WRITE_OPERATIONS_SUPPORTED_def)

lemma unat_next_idx:
  assumes "unat i < 10"
  shows "unat (next_idx i) = (unat i + 1) mod 10"
proof -
  have "unat (i + 1) = unat i + 1"
    using assms by (subst unat_add_size_t) simp_all
  then show ?thesis
    using assms by (cases "unat i = 9") (auto simp: next_idx_def word_le_nat_alt)
qed

lemma unat_next_in_offs:
  fixes i :: uint8_t
  assumes "unat i < 10"
  shows "unat (ucast (next_idx (ucast i)) :: uint8_t) = (unat i + 1) mod 10"
proof -
  have "unat (next_idx (ucast i)) = (unat i + 1) mod 10"
    using assms by (subst unat_next_idx) simp_all
  then show ?thesis
    by (simp add: unsigned_ucast_eq take_bit_nat_eq_self)
qed

lemma map_mod_rotate:
  assumes "length xs = (10::nat)"
  shows "map (\<lambda>k. xs ! ((m + k) mod 10)) [0..<10] = rotate m xs"
  using assms by (intro nth_equalityI) (simp_all add: nth_rotate)

lemma rotate_Suc_update:
  assumes "length xs = (10::nat)" and "i < 10"
  shows "rotate ((i + 1) mod 10) (xs[i := e]) = tl (rotate i xs) @ [e]"
proof (rule nth_equalityI)
  show "length (rotate ((i + 1) mod 10) (xs[i := e])) = length (tl (rotate i xs) @ [e])"
    using assms by simp
next
  fix k assume "k < length (rotate ((i + 1) mod 10) (xs[i := e]))"
  then have k: "k < 10" using assms by simp
  have idx: "(Suc i mod 10 + k) mod 10 = Suc (i + k) mod 10"
    by (simp add: mod_add_left_eq)
  have lhs: "rotate ((i + 1) mod 10) (xs[i := e]) ! k = xs[i := e] ! ((i + Suc k) mod 10)"
    using assms k by (simp add: nth_rotate idx)
  show "rotate ((i + 1) mod 10) (xs[i := e]) ! k = (tl (rotate i xs) @ [e]) ! k"
  proof (cases "k < 9")
    case True
    then have "(i + Suc k) mod 10 \<noteq> i"
      using assms(2) by (cases "i + Suc k < 10") (simp_all add: le_mod_geq)
    with True assms show ?thesis
      by (simp add: lhs idx nth_append nth_tl nth_rotate)
  next
    case False
    with k have "k = 9" by simp
    with assms lhs show ?thesis
      by (simp add: nth_append)
  qed
qed

lemma contents_full:
  assumes "ring_inv b" and "full b"
  shows "contents b = rotate (unat (out_offs b)) (entry b)"
  using assms map_mod_rotate [of "entry b" "unat (out_offs b)"]
  by (simp add: contents_def ring_count_def ring_inv_def)

lemma contents_not_full:
  assumes "ring_inv b" and "\<not> full b"
  shows "contents b = take (unat (in_offs b)) (entry b)"
  using assms
  by (intro nth_equalityI) (auto simp: contents_def ring_count_def ring_inv_def)

lemma contents_occupied:
  assumes "ring_inv b"
  shows "set (contents b) = set (occupied b)" and "length (contents b) = length (occupied b)"
  using assms by (cases "full b"; simp add: contents_full contents_not_full occupied_def)+

lemma ring_count_contents [simp]: "length (contents b) = ring_count b"
  by (simp add: contents_def)

section \<open>Adding an entry\<close>

text \<open>The slot that \<open>in_offs\<close> names is in range, so the copy never faults.\<close>

definition ring_push :: "aesd_buffer_entry \<Rightarrow> aesd_circular_buffer \<Rightarrow> aesd_circular_buffer" where
  "ring_push e b = (case aesd_circular_buffer_add_entry b e of Inl _ \<Rightarrow> b | Inr (_, b') \<Rightarrow> b')"

lemma add_entry_empty:
  "entry_size e = 0 \<Longrightarrow> aesd_circular_buffer_add_entry b e = Inr (NULL, b)"
  by (simp add: aesd_circular_buffer_add_entry_def)

lemma add_entry_full:
  assumes "ring_inv b" and "full b" and "entry_size e \<noteq> 0"
  shows "aesd_circular_buffer_add_entry b e =
    Inr (buffptr (hd (contents b)),
      b\<lparr>entry := (entry b)[unat (in_offs b) := e],
        in_offs := ucast (next_idx (ucast (in_offs b))),
        out_offs := ucast (next_idx (ucast (in_offs b)))\<rparr>)"
proof -
  have len: "length (entry b) = 10" and lt: "unat (in_offs b) < 10"
    and eq: "out_offs b = in_offs b"
    using assms(1,2) by (simp_all add: ring_inv_def)
  from len have "entry b \<noteq> []" by auto
  with assms(1,2) len lt eq have "hd (contents b) = entry b ! unat (in_offs b)"
    by (simp add: contents_full hd_rotate_conv_nth)
  with assms len lt show ?thesis
    by (simp add: aesd_circular_buffer_add_entry_def Let_def)
qed

lemma add_entry_not_full:
  assumes "ring_inv b" and "\<not> full b" and "entry_size e \<noteq> 0"
  shows "aesd_circular_buffer_add_entry b e =
    Inr (NULL,
      b\<lparr>entry := (entry b)[unat (in_offs b) := e],
        in_offs := ucast (next_idx (ucast (in_offs b))),
        full := (unat (in_offs b) = 9)\<rparr>)"
proof -
  have len: "length (entry b) = 10" and lt: "unat (in_offs b) < 10" and out: "out_offs b = 0"
    using assms(1,2) by (simp_all add: ring_inv_def)
  have "(ucast (next_idx (ucast (in_offs b))) = (0 :: uint8_t)) = (unat (in_offs b) = 9)"
    using unat_next_in_offs [OF lt] lt by (simp add: word_unat_eq_iff) presburger
  with assms len lt out show ?thesis
    by (simp add: aesd_circular_buffer_add_entry_def Let_def)
qed

lemma add_entry_Inr:
  assumes "ring_inv b"
  obtains p where "aesd_circular_buffer_add_entry b e = Inr (p, ring_push e b)"
proof (cases "entry_size e = 0")
  case True
  then show ?thesis using that by (simp add: ring_push_def add_entry_empty)
next
  case False
  then show ?thesis
    using that assms
    by (cases "full b") (simp_all add: ring_push_def add_entry_full add_entry_not_full)
qed

lemma ring_inv_push_full:
  assumes inv: "ring_inv b" and "full b" and "entry_size e \<noteq> 0"
  shows "ring_inv (ring_push e b)" and "contents (ring_push e b) = tl (contents b) @ [e]"
proof -
  have lt: "unat (in_offs b) < 10" and len: "length (entry b) = 10"
    and eq: "out_offs b = in_offs b"
    using assms by (simp_all add: ring_inv_def)
  have push: "ring_push e b = b\<lparr>entry := (entry b)[unat (in_offs b) := e],
        in_offs := ucast (next_idx (ucast (in_offs b))),
        out_offs := ucast (next_idx (ucast (in_offs b)))\<rparr>"
    using assms by (simp add: ring_push_def add_entry_full)
  show inv': "ring_inv (ring_push e b)"
    using assms lt
    by (auto simp: push ring_defs unat_next_in_offs list_all_iff dest: set_update_subset_insert [THEN subsetD])
  show "contents (ring_push e b) = tl (contents b) @ [e]"
    using contents_full [OF inv'] contents_full [OF inv \<open>full b\<close>] rotate_Suc_update [OF len lt, of e]
    by (simp add: push unat_next_in_offs [OF lt] eq \<open>full b\<close>)
qed

lemma ring_inv_push_not_full:
  assumes inv: "ring_inv b" and nf: "\<not> full b" and "entry_size e \<noteq> 0"
  shows "ring_inv (ring_push e b)" and "contents (ring_push e b) = contents b @ [e]"
proof -
  let ?i = "unat (in_offs b)"
  have lt: "?i < 10" and len: "length (entry b) = 10" and out: "out_offs b = 0"
    using assms by (simp_all add: ring_inv_def)
  have push: "ring_push e b = b\<lparr>entry := (entry b)[?i := e],
        in_offs := ucast (next_idx (ucast (in_offs b))), full := (?i = 9)\<rparr>"
    using assms by (simp add: ring_push_def add_entry_not_full)
  have occ: "take (Suc ?i) ((entry b)[?i := e]) = take ?i (entry b) @ [e]"
    and vac: "drop (Suc ?i) ((entry b)[?i := e]) = drop (Suc ?i) (entry b)"
    using lt len by (simp_all add: take_Suc_conv_app_nth)
  have full9: "?i = 9 \<Longrightarrow> (entry b)[9 := e] = take 9 (entry b) @ [e]"
    using occ len by simp
  have vacant_sub: "set (drop (Suc ?i) (entry b)) \<subseteq> set (drop ?i (entry b))"
    by (simp add: set_drop_subset_set_drop)
  show inv': "ring_inv (ring_push e b)"
    using assms lt len out vacant_sub
    by (cases "?i = 9")
      (auto simp: push ring_defs unat_next_in_offs list_all_iff occ vac full9 word_unat_eq_iff)
  show "contents (ring_push e b) = contents b @ [e]"
  proof (cases "?i = 9")
    case True
    then show ?thesis
      using contents_full [OF inv'] contents_not_full [OF inv nf] full9 out
      by (simp add: push)
  next
    case False
    then have "(?i + 1) mod 10 = Suc ?i" using lt by simp
    with False show ?thesis
      using contents_not_full [OF inv'] contents_not_full [OF inv nf] occ
      by (simp add: push unat_next_in_offs [OF lt])
  qed
qed

section \<open>The contract of the ring\<close>

text \<open>
  What the driver relies on: a bounded log that keeps the newest \<open>cap\<close> entries in the order
  they were added.
\<close>

locale write_log =
  fixes empty :: 'b
    and add :: "'e \<Rightarrow> 'b \<Rightarrow> 'b"
    and log_of :: "'b \<Rightarrow> 'e list"
    and invar :: "'b \<Rightarrow> bool"
    and accepts :: "'e \<Rightarrow> bool"
    and cap :: nat
  assumes invar_empty: "invar empty"
    and log_empty: "log_of empty = []"
    and invar_add: "invar b \<Longrightarrow> accepts e \<Longrightarrow> invar (add e b)"
    and log_add: "invar b \<Longrightarrow> accepts e \<Longrightarrow> log_of (add e b) = lastn cap (log_of b @ [e])"
begin

lemma invar_adds: "invar b \<Longrightarrow> list_all accepts es \<Longrightarrow> invar (fold add es b)"
  by (induction es arbitrary: b) (simp_all add: invar_add)

lemma log_adds:
  assumes "invar b" and "log_of b = lastn cap (log_of b)" and "list_all accepts es"
  shows "log_of (fold add es b) = lastn cap (log_of b @ es)"
  using assms
proof (induction es arbitrary: b)
  case Nil
  then show ?case by simp
next
  case (Cons e es)
  then have add: "log_of (add e b) = lastn cap (log_of b @ [e])" and inv: "invar (add e b)"
    by (simp_all add: log_add invar_add)
  have "log_of (fold add es (add e b)) = lastn cap (log_of (add e b) @ es)"
    using Cons inv by (intro Cons.IH) (simp_all add: add)
  then show ?case by (simp add: add lastn_lastn_append)
qed

lemma log_from_empty:
  "list_all accepts es \<Longrightarrow> log_of (fold add es empty) = lastn cap es"
  using log_adds [OF invar_empty, of es] by (simp add: log_empty lastn_def)

end

interpretation ring: write_log
  "aesd_circular_buffer_init b0" ring_push contents ring_inv "\<lambda>e. entry_size e \<noteq> 0" 10
  for b0
proof (unfold_locales, goal_cases)
  case 1
  show ?case by (simp add: aesd_circular_buffer_init_def ring_defs list_all_iff)
next
  case 2
  show ?case by (simp add: aesd_circular_buffer_init_def contents_def ring_count_def)
next
  case (3 b e)
  then show ?case
    by (cases "full b") (simp_all add: ring_inv_push_full ring_inv_push_not_full)
next
  case (4 b e)
  show ?case
  proof (cases "full b")
    case True
    with 4 have "length (contents b) = 10" by (simp add: ring_count_def)
    with 4 True show ?thesis
      by (simp add: ring_inv_push_full lastn_snoc_full)
  next
    case False
    with 4 have "length (contents b) \<le> 9"
      by (simp add: contents_not_full ring_inv_def del: ring_count_contents)
    with 4 False show ?thesis
      by (simp add: ring_inv_push_not_full)
  qed
qed

lemma ring_add:
  assumes "ring_inv b" and "entry_size e \<noteq> 0"
  shows "\<exists>b'. aesd_circular_buffer_add_entry b e =
      Inr (if full b then buffptr (hd (contents b)) else NULL, b') \<and>
    ring_inv b' \<and> contents b' = lastn 10 (contents b @ [e])"
  using assms ring.invar_add [of b e] ring.log_add [of b e]
  by (cases "full b") (simp_all add: add_entry_full add_entry_not_full ring_push_def)

section \<open>Searching by character offset\<close>

lemma locate_append_zeros: "locate (xs @ replicate n 0) off = locate xs off"
proof (induction xs arbitrary: off)
  case Nil
  show ?case by (induction n) simp_all
next
  case (Cons x xs)
  then show ?case by simp
qed

lemma locate_None_iff: "locate xs off = None \<longleftrightarrow> sum_list xs \<le> off"
proof (induction xs arbitrary: off)
  case Nil
  show ?case by simp
next
  case (Cons x xs)
  show ?case
    by (cases "off < x") (simp_all add: Cons.IH le_diff_conv2 add.commute)
qed

lemma locate_SomeD:
  "locate xs off = Some (k, j) \<Longrightarrow>
     k < length xs \<and> j < xs ! k \<and> off = sum_list (take k xs) + j"
proof (induction xs arbitrary: off k)
  case Nil
  then show ?case by simp
next
  case (Cons x xs)
  show ?case
  proof (cases "off < x")
    case True
    with Cons.prems show ?thesis by auto
  next
    case False
    with Cons.prems obtain i where "k = Suc i" and "locate xs (off - x) = Some (i, j)"
      by auto
    with Cons.IH [of "off - x" i] False show ?thesis by auto
  qed
qed

lemma locate_hit:
  "k < length xs \<Longrightarrow> j < xs ! k \<Longrightarrow> locate xs (sum_list (take k xs) + j) = Some (k, j)"
proof (induction xs arbitrary: k)
  case Nil
  then show ?case by simp
next
  case (Cons x xs)
  then show ?case by (cases k) simp_all
qed

definition slot_size :: "aesd_circular_buffer \<Rightarrow> nat \<Rightarrow> nat" where
  "slot_size b k = unat (entry_size (entry b ! ((unat (out_offs b) + k) mod 10)))"

lemma ring_count_le:
  assumes "ring_inv b"
  shows "ring_count b \<le> 10" and "is_empty b \<longleftrightarrow> ring_count b = 0"
proof -
  show "ring_count b \<le> 10"
    using assms by (simp add: ring_count_def ring_inv_def)
  show "is_empty b \<longleftrightarrow> ring_count b = 0"
    using assms by (auto simp: is_empty_def ring_count_def ring_inv_def word_unat_eq_iff)
qed

lemma slot_size_vacant:
  assumes "ring_inv b" and "ring_count b \<le> k" and "k < 10"
  shows "slot_size b k = 0"
proof -
  have nf: "\<not> full b" using assms by (auto simp: ring_count_def)
  with assms have le: "unat (in_offs b) \<le> k" and out: "out_offs b = 0"
    by (auto simp: ring_inv_def ring_count_def)
  have "entry b ! k \<in> set (drop (unat (in_offs b)) (entry b))"
    using assms le by (auto simp: ring_inv_def in_set_conv_nth intro!: exI [of _ "k - unat (in_offs b)"])
  with assms nf out show ?thesis
    by (auto simp: slot_size_def ring_defs list_all_iff)
qed

lemma slot_sizes:
  assumes "ring_inv b"
  shows "map (slot_size b) [0..<10] = entry_sizes b @ replicate (10 - ring_count b) 0"
proof -
  have "map (slot_size b) [0..<10] =
      map (slot_size b) [0..<ring_count b] @ map (slot_size b) [ring_count b..<10]"
    using ring_count_le(1) [OF assms] upt_add_eq_append [of 0 "ring_count b" "10 - ring_count b"]
    by (simp flip: map_append)
  moreover have "map (slot_size b) [ring_count b..<10] = replicate (10 - ring_count b) 0"
    using slot_size_vacant [OF assms] by (intro nth_equalityI) simp_all
  moreover have "map (slot_size b) [0..<ring_count b] = entry_sizes b"
    by (simp add: entry_sizes_def contents_def slot_size_def)
  ultimately show ?thesis by simp
qed

lemma slot_size_first:
  assumes "ring_inv b" and "\<not> is_empty b"
  shows "0 < slot_size b 0"
proof -
  have "0 < ring_count b" using assms ring_count_le(2) by auto
  then have "entry b ! (unat (out_offs b) mod 10) \<in> set (contents b)"
    by (force simp: contents_def)
  with assms contents_occupied(1) [OF assms(1)] show ?thesis
    by (auto simp: slot_size_def ring_inv_def list_all_iff word_unat_eq_iff)
qed

lemma peek_slot:
  assumes "ring_inv b" and "\<not> is_empty b" and "k < 10"
  shows "peek b (of_nat k) = Some ((unat (out_offs b) + k) mod 10)"
proof -
  have "unat (ucast (out_offs b) + of_nat k :: size_t) = unat (out_offs b) + k"
    using assms by (subst unat_add_size_t) (simp_all add: unat_of_nat_size_t ring_inv_def)
  with assms show ?thesis by (simp add: peek_def unat_mod)
qed

text \<open>
  One turn of the loop decides exactly whether the wanted offset lies in the current entry. For
  an empty slot \<^verbatim>\<open>size - 1\<close> wraps around, and the sum comes back below the offset: this
  needs at least one byte before it, which the first, never empty, entry provides.
\<close>

lemma loop_test:
  fixes off :: size_t
  assumes "S \<le> unat off" and "S + sz < 2 ^ 64" and "0 < S + sz"
  shows "of_nat S + (of_nat sz - 1) \<ge> off \<longleftrightarrow> unat off - S < sz"
proof -
  obtain n where n: "S + sz = Suc n" using assms(3) by (cases "S + sz") simp_all
  then have "of_nat S + of_nat sz = (1 + of_nat n :: size_t)"
    by (metis of_nat_Suc of_nat_add)
  then have "of_nat S + (of_nat sz - 1) = (of_nat n :: size_t)"
    by (simp add: algebra_simps)
  then have "unat (of_nat S + (of_nat sz - 1) :: size_t) = n"
    using assms(2) n by (simp add: unat_of_nat)
  with assms n show ?thesis by (auto simp: word_le_nat_alt)
qed

lemma find_entry_loop_locate:
  assumes inv: "ring_inv b" and ne: "\<not> is_empty b"
    and total: "sum_list (entry_sizes b) < 2 ^ 64"
    and "k \<le> 10" and "S = sum_list (map (slot_size b) [0..<k])" and "S \<le> unat off"
  shows "find_entry_loop b off (of_nat k) (of_nat S) =
    map_option (\<lambda>(i, j). ((unat (out_offs b) + k + i) mod 10, of_nat j))
      (locate (map (slot_size b) [k..<10]) (unat off - S))"
  using assms(4-6)
proof (induction "10 - k" arbitrary: k S)
  case 0
  then show ?case by (subst find_entry_loop.simps) simp
next
  case (Suc m)
  let ?sz = "slot_size b k"
  have k: "k < 10" using Suc.hyps by simp
  then have upt: "[k..<10] = k # [Suc k..<10]" by (simp add: upt_conv_Cons)
  have "[0..<10] = [0..<Suc k] @ [Suc k..<10]"
    using upt_add_eq_append [of 0 "Suc k" "10 - Suc k"] k by simp
  then have "sum_list (map (slot_size b) [0..<10]) = S + ?sz + sum_list (map (slot_size b) [Suc k..<10])"
    by (simp add: Suc.prems(2))
  then have bound: "S + ?sz < 2 ^ 64"
    using total by (simp add: slot_sizes [OF inv] sum_list_replicate)
  have pos: "0 < S + ?sz"
  proof (cases "k = 0")
    case True
    then show ?thesis using slot_size_first [OF inv ne] by simp
  next
    case False
    then have "slot_size b 0 \<le> S"
      unfolding Suc.prems(2) by (intro member_le_sum_list) auto
    then show ?thesis using slot_size_first [OF inv ne] by simp
  qed
  have sz: "entry_size (entry b ! ((unat (out_offs b) + k) mod 10)) = of_nat ?sz"
    by (simp add: slot_size_def)
  have less: "(of_nat k :: size_t) < 10"
    using k by (simp add: word_less_nat_alt unat_of_nat)
  have succ: "(of_nat k :: size_t) + 1 = of_nat (Suc k)"
    by (simp add: add.commute)
  have unfold: "find_entry_loop b off (of_nat k) (of_nat S) =
      (if unat off - S < ?sz then Some ((unat (out_offs b) + k) mod 10, off - of_nat S)
       else find_entry_loop b off (of_nat (Suc k)) (of_nat (S + ?sz)))"
    using loop_test [OF Suc.prems(3) bound pos] peek_slot [OF inv ne k] less
    by (subst find_entry_loop.simps) (simp add: sz Let_def succ del: of_nat_Suc)
  show ?case
  proof (cases "unat off - S < ?sz")
    case True
    have "of_nat (unat off - S) = (of_nat (unat off) :: size_t) - of_nat S"
      using Suc.prems(3) by (simp only: of_nat_diff)
    with True show ?thesis by (simp add: unfold upt)
  next
    case False
    have "find_entry_loop b off (of_nat (Suc k)) (of_nat (S + ?sz)) =
      map_option (\<lambda>(i, j). ((unat (out_offs b) + Suc k + i) mod 10, of_nat j))
        (locate (map (slot_size b) [Suc k..<10]) (unat off - (S + ?sz)))"
      using Suc.hyps(2) k False Suc.prems(2,3) by (intro Suc.hyps(1)) simp_all
    with False show ?thesis
      by (simp add: unfold upt option.map_comp comp_def case_prod_unfold apfst_def map_prod_def)
  qed
qed

lemma find_entry_locate:
  assumes "ring_inv b" and "sum_list (entry_sizes b) < 2 ^ 64"
  shows "aesd_circular_buffer_find_entry_offset_for_fpos b off =
    map_option (\<lambda>(k, j). ((unat (out_offs b) + k) mod 10, of_nat j))
      (locate (entry_sizes b) (unat off))"
proof (cases "is_empty b")
  case True
  then have "peek b 0 = None" and "entry_sizes b = []"
    using ring_count_le(2) [OF assms(1)] by (simp_all add: peek_def entry_sizes_def contents_def)
  then show ?thesis
    by (simp add: aesd_circular_buffer_find_entry_offset_for_fpos_def find_entry_loop.simps [of b off 0])
next
  case False
  then show ?thesis
    using find_entry_loop_locate [OF assms(1) False assms(2), of 0 0 off] slot_sizes [OF assms(1)]
    by (simp add: aesd_circular_buffer_find_entry_offset_for_fpos_def locate_append_zeros)
qed

lemma contents_nth:
  "k < ring_count b \<Longrightarrow> contents b ! k = entry b ! ((unat (out_offs b) + k) mod 10)"
  by (simp add: contents_def)

lemma concat_nth_locate:
  assumes "locate (map length xss) off = Some (k, j)"
  shows "concat xss ! off = xss ! k ! j"
  using assms
proof (induction xss arbitrary: off k)
  case Nil
  then show ?case by simp
next
  case (Cons xs xss)
  show ?case
  proof (cases "off < length xs")
    case True
    with Cons.prems show ?thesis by (auto simp: nth_append)
  next
    case False
    with Cons.prems obtain i where "k = Suc i" and "locate (map length xss) (off - length xs) = Some (i, j)"
      by auto
    with Cons.IH False show ?thesis by (simp add: nth_append)
  qed
qed

lemma foreach_from:
  assumes "length (entry b) = 10"
  shows "AESD_CIRCULAR_BUFFER_FOREACH body b index s = foldE body (drop (unat index) (entry b)) s"
  using assms
proof (induction body b index s rule: AESD_CIRCULAR_BUFFER_FOREACH.induct)
  case (1 body buffer index s)
  show ?case
  proof (cases "unat index < 10")
    case True
    then have "unat (index + 1) = Suc (unat index)"
      by (subst unat_add_no_wrap) simp_all
    moreover have "drop (unat index) (entry buffer) =
        entry buffer ! unat index # drop (Suc (unat index)) (entry buffer)"
      using True "1.prems" by (simp add: Cons_nth_drop_Suc)
    ultimately show ?thesis
      using True "1.IH" "1.prems"
      by (subst AESD_CIRCULAR_BUFFER_FOREACH.simps)
        (simp add: bindE_def split: sum.splits)
  next
    case False
    then show ?thesis
      using "1.prems" by (subst AESD_CIRCULAR_BUFFER_FOREACH.simps) simp
  qed
qed

section \<open>Properties of the ring\<close>

text \<open>
  Property C1. Adding a non-empty entry to a ring that satisfies its invariant succeeds,
  keeps the invariant, leaves the newest ten entries in the order they were written, and returns
  the pointer of the oldest entry when that entry is dropped and NULL when nothing is dropped.
\<close>

theorem add_entry_keeps_last_ten:
  assumes "ring_inv b" and "entry_size e \<noteq> 0"
  shows "\<exists>b'. aesd_circular_buffer_add_entry b e =
      Inr (if full b then buffptr (hd (contents b)) else NULL, b') \<and>
    ring_inv b' \<and> contents b' = lastn 10 (contents b @ [e])"
  using assms by (rule ring_add)

definition ex_ring :: aesd_circular_buffer where
  "ex_ring = \<lparr>entry = \<lparr>buffptr = Block 1, entry_size = 3\<rparr> # \<lparr>buffptr = Block 2, entry_size = 5\<rparr> #
       replicate 8 zero_entry, in_offs = 2, out_offs = 0, full = False\<rparr>"

lemma ex_ring_inv: "ring_inv ex_ring"
  by (simp add: ex_ring_def ring_defs list_all_iff)

lemma ex_ring_contents:
  "contents ex_ring = [\<lparr>buffptr = Block 1, entry_size = 3\<rparr>, \<lparr>buffptr = Block 2, entry_size = 5\<rparr>]"
  using contents_not_full [OF ex_ring_inv] by (simp add: ex_ring_def)

theorem add_entry_keeps_last_ten_witness:
  "\<exists>b'. aesd_circular_buffer_add_entry ex_ring \<lparr>buffptr = Block 3, entry_size = 7\<rparr> = Inr (NULL, b') \<and>
    ring_inv b' \<and> map buffptr (contents b') = [Block 1, Block 2, Block 3]"
  using add_entry_keeps_last_ten [OF ex_ring_inv, of "\<lparr>buffptr = Block 3, entry_size = 7\<rparr>"]
  by (auto simp: ex_ring_contents) (simp add: ex_ring_def)

text \<open>
  Property C2. From an initialised ring, any number of added non-empty entries leaves exactly
  the last ten of them.
\<close>

theorem ring_log_from_init:
  assumes "list_all (\<lambda>e. entry_size e \<noteq> 0) es"
  shows "contents (fold ring_push es (aesd_circular_buffer_init b0)) = lastn 10 es"
  using assms by (rule ring.log_from_empty)

theorem ring_log_from_init_witness:
  "contents (fold ring_push
      (map (\<lambda>k. \<lparr>buffptr = Block k, entry_size = 4\<rparr>) [0..<12]) (aesd_circular_buffer_init ex_ring))
    = map (\<lambda>k. \<lparr>buffptr = Block k, entry_size = 4\<rparr>) [2..<12]"
proof -
  have "list_all (\<lambda>e. entry_size e \<noteq> 0) (map (\<lambda>k. \<lparr>buffptr = Block k, entry_size = 4\<rparr>) [0..<12])"
    by (simp add: list_all_iff)
  from ring_log_from_init [OF this, of ex_ring] show ?thesis
    by (simp only: lastn_def drop_map length_map length_upt drop_upt)
      (simp flip: numeral_2_eq_2)
qed

text \<open>
  Property C3. The search by character offset agrees with the concatenation of the stored data:
  it returns NULL exactly when the offset is not smaller than the number of bytes stored, and
  otherwise a slot and a byte offset in it that hold that very byte.
\<close>

theorem find_entry_offset_correct:
  assumes "ring_inv b" and "sum_list (entry_sizes b) < 2 ^ 64"
    and data: "\<forall>e \<in> set (contents b). length (data e) = unat (entry_size e)"
  shows "case aesd_circular_buffer_find_entry_offset_for_fpos b off of
      None \<Rightarrow> length (concat (map data (contents b))) \<le> unat off
    | Some (i, j) \<Rightarrow> unat off < length (concat (map data (contents b))) \<and>
        i < 10 \<and> entry b ! i \<in> set (contents b) \<and> unat j < unat (entry_size (entry b ! i)) \<and>
        data (entry b ! i) ! unat j = concat (map data (contents b)) ! unat off"
proof -
  let ?xss = "map data (contents b)"
  have sizes: "map length ?xss = entry_sizes b"
    using data by (simp add: entry_sizes_def)
  have len: "length (concat ?xss) = sum_list (entry_sizes b)"
    by (simp add: length_concat sizes del: map_map)
  show ?thesis
  proof (cases "locate (entry_sizes b) (unat off)")
    case None
    then show ?thesis
      using locate_None_iff [of "entry_sizes b" "unat off"]
      by (simp add: find_entry_locate [OF assms(1,2)] len)
  next
    case (Some kj)
    obtain k j where kj: "kj = (k, j)" by (cases kj)
    with Some have loc: "locate (entry_sizes b) (unat off) = Some (k, j)" by simp
    have k: "k < ring_count b"
      using locate_SomeD [OF loc] by (simp add: entry_sizes_def)
    have j: "j < entry_sizes b ! k"
      using locate_SomeD [OF loc] by simp
    let ?e = "entry b ! ((unat (out_offs b) + k) mod 10)"
    have e: "contents b ! k = ?e" using k by (rule contents_nth)
    have "unat off < length (concat ?xss)"
      using loc locate_None_iff [of "entry_sizes b" "unat off"] len by simp
    moreover have "?e \<in> set (contents b)" using k by (metis e nth_mem ring_count_contents)
    moreover have szj: "j < unat (entry_size ?e)" using j k e by (simp add: entry_sizes_def)
    moreover have uj: "unat (of_nat j :: size_t) = j"
      using less_trans [OF szj unat_size_t_bound] by (simp add: unat_of_nat)
    moreover have "data ?e ! j = concat ?xss ! unat off"
      using concat_nth_locate [of ?xss "unat off" k j] loc sizes k e by simp
    ultimately show ?thesis
      by (simp add: find_entry_locate [OF assms(1,2)] loc)
  qed
qed

theorem find_entry_offset_correct_witness:
  "aesd_circular_buffer_find_entry_offset_for_fpos ex_ring 4 = Some (1, 1) \<and>
   (case aesd_circular_buffer_find_entry_offset_for_fpos ex_ring 4 of
      None \<Rightarrow> False
    | Some (i, j) \<Rightarrow> replicate (unat (entry_size (entry ex_ring ! i))) i ! unat j = 1)"
proof -
  define data where "data = (\<lambda>e :: aesd_buffer_entry. replicate (unat (entry_size e)) (if buffptr e = Block 2 then 1 else 0 :: nat))"
  have find: "aesd_circular_buffer_find_entry_offset_for_fpos ex_ring 4 = Some (1, 1)"
    using find_entry_locate [OF ex_ring_inv, of 4]
    by (simp add: entry_sizes_def ex_ring_contents) (simp add: ex_ring_def)
  have "data (entry ex_ring ! 1) ! 1 = concat (map data (contents ex_ring)) ! 4"
    using find_entry_offset_correct [OF ex_ring_inv, of data 4] find
    by (simp add: entry_sizes_def ex_ring_contents data_def)
  then show ?thesis using find by (simp add: data_def ex_ring_def)
qed

end
