(* ===== verification/Kernel_Memory.thy ===== *)
theory Kernel_Memory
  imports Circular_Buffer
begin

text \<open>
  Kernel memory as the character driver sees it. The allocator and the user-space copies are not
  code of the repository: they are the fields of a record \<open>kernel_api\<close> that the driver
  operations take as an argument, and \<open>kernel_ok\<close> states what the Linux documentation of these
  functions promises. Allocated memory is a finite or infinite map from block numbers to the
  bytes of the block; \<open>kenv\<close> is any further state of the kernel, so a result may differ from
  call to call.
\<close>

section \<open>Memory and the kernel interface\<close>

type_synonym heap = "nat \<rightharpoonup> byte list"

record 'e kmem =
  blocks :: heap
  kenv :: 'e

text \<open>
  User memory behind a \<^verbatim>\<open>__user\<close> pointer is the list of bytes from that pointer on. A
  destination inside a block is the block pointer and an offset. \<open>copy_to_user\<close> also returns
  the bytes that arrived in user memory.
\<close>

record 'e kernel_api =
  kmalloc :: "size_t \<Rightarrow> 'e kmem \<Rightarrow> ptr \<times> 'e kmem"
  krealloc :: "ptr \<Rightarrow> size_t \<Rightarrow> 'e kmem \<Rightarrow> fault + ptr \<times> 'e kmem"
  kfree :: "ptr \<Rightarrow> 'e kmem \<Rightarrow> fault + 'e kmem"
  copy_from_user :: "ptr \<Rightarrow> size_t \<Rightarrow> byte list \<Rightarrow> size_t \<Rightarrow> 'e kmem \<Rightarrow> fault + size_t \<times> 'e kmem"
  copy_to_user :: "ptr \<Rightarrow> size_t \<Rightarrow> 'e kmem \<Rightarrow> fault + (size_t \<times> byte list) \<times> 'e kmem"

section \<open>What the kernel documents\<close>

text \<open>
  \<^verbatim>\<open>KMALLOC_MAX_SIZE\<close> is at most \<open>2 ^ 25\<close> in the kernel the project builds (v5.15); the
  development only needs that no block reaches \<open>2 ^ 32\<close> bytes. \<^verbatim>\<open>MAX_RW_COUNT\<close> is the
  largest count that the virtual file system passes to a driver.
\<close>

definition kmalloc_limit :: nat where
  "kmalloc_limit = 2 ^ 32"

definition max_rw_count :: nat where
  "max_rw_count = 2147479552"

text \<open>A request either fails, is empty, or yields a fresh block of the requested length.\<close>

definition alloc_result :: "size_t \<Rightarrow> heap \<Rightarrow> ptr \<Rightarrow> heap \<Rightarrow> bool" where
  "alloc_result n B p B' \<longleftrightarrow>
     p = NULL \<and> B' = B \<or>
     n = 0 \<and> p = ZERO_SIZE_PTR \<and> B' = B \<or>
     (\<exists>b bs. p = Block b \<and> n \<noteq> 0 \<and> B b = None \<and> B' = B(b \<mapsto> bs) \<and>
        length bs = unat n \<and> unat n \<le> kmalloc_limit)"

definition kmalloc_ok :: "'e kernel_api \<Rightarrow> bool" where
  "kmalloc_ok K \<longleftrightarrow>
     (\<forall>n m. alloc_result n (blocks m) (fst (kmalloc K n m)) (blocks (snd (kmalloc K n m))))"

text \<open>
  \<^verbatim>\<open>krealloc\<close> of a null pointer is an allocation. For a live block and a non-zero size it
  fails and leaves the block alone, or returns a block of the new length (the same one or a
  fresh one) that starts with the old bytes, the old block being gone.
\<close>

definition krealloc_ok :: "'e kernel_api \<Rightarrow> bool" where
  "krealloc_ok K \<longleftrightarrow>
     (\<forall>n m. \<exists>p m'. krealloc K NULL n m = Inr (p, m') \<and> alloc_result n (blocks m) p (blocks m')) \<and>
     (\<forall>b bs n m. blocks m b = Some bs \<longrightarrow> n \<noteq> 0 \<longrightarrow>
        (\<exists>p m'. krealloc K (Block b) n m = Inr (p, m') \<and>
           (p = NULL \<and> blocks m' = blocks m \<or>
            (\<exists>b' cs. p = Block b' \<and> (b' = b \<or> blocks m b' = None) \<and>
               blocks m' = ((blocks m)(b := None))(b' \<mapsto> cs) \<and>
               length cs = unat n \<and> unat n \<le> kmalloc_limit \<and>
               take (min (length bs) (unat n)) cs = take (min (length bs) (unat n)) bs))))"

definition kfree_ok :: "'e kernel_api \<Rightarrow> bool" where
  "kfree_ok K \<longleftrightarrow>
     (\<forall>p m. p = NULL \<or> p = ZERO_SIZE_PTR \<longrightarrow> (\<exists>m'. kfree K p m = Inr m' \<and> blocks m' = blocks m)) \<and>
     (\<forall>b bs m. blocks m b = Some bs \<longrightarrow>
        (\<exists>m'. kfree K (Block b) m = Inr m' \<and> blocks m' = (blocks m)(b := None)))"

text \<open>
  A copy from user space returns the number of bytes it could not copy, which it replaces by
  zero bytes; a request of no bytes touches nothing. A copy to user space returns the number of
  bytes it could not copy and stores the bytes before them.
\<close>

definition copy_from_user_ok :: "'e kernel_api \<Rightarrow> bool" where
  "copy_from_user_ok K \<longleftrightarrow>
     (\<forall>p off ubuf m. \<exists>m'. copy_from_user K p off ubuf 0 m = Inr (0, m') \<and> blocks m' = blocks m) \<and>
     (\<forall>b bs off ubuf n m. blocks m b = Some bs \<longrightarrow> unat off + unat n \<le> length bs \<longrightarrow>
        (\<exists>r m'. copy_from_user K (Block b) off ubuf n m = Inr (r, m') \<and>
           r \<le> n \<and> unat n - unat r \<le> length ubuf \<and>
           blocks m' = (blocks m)(b \<mapsto> take (unat off) bs @ take (unat n - unat r) ubuf @
                         replicate (unat r) 0 @ drop (unat off + unat n) bs)))"

definition copy_to_user_ok :: "'e kernel_api \<Rightarrow> bool" where
  "copy_to_user_ok K \<longleftrightarrow>
     (\<forall>b bs n m. blocks m b = Some bs \<longrightarrow> unat n \<le> length bs \<longrightarrow>
        (\<exists>r m'. copy_to_user K (Block b) n m = Inr ((r, take (unat n - unat r) bs), m') \<and>
           r \<le> n \<and> blocks m' = blocks m))"

text \<open>
  The user memory a reader passes is mapped and writable: no byte is left out. This is not part
  of the contract; properties that need it name it.
\<close>

definition copies_complete :: "'e kernel_api \<Rightarrow> bool" where
  "copies_complete K \<longleftrightarrow>
     (\<forall>p n m r out m'. copy_to_user K p n m = Inr ((r, out), m') \<longrightarrow> r = 0)"

definition kernel_ok :: "'e kernel_api \<Rightarrow> bool" where
  "kernel_ok K \<longleftrightarrow> kmalloc_ok K \<and> krealloc_ok K \<and> kfree_ok K \<and> copy_from_user_ok K \<and> copy_to_user_ok K"

section \<open>Reading kernel memory\<close>

text \<open>
  Direct reads by the driver (the string function \<^verbatim>\<open>memchr\<close>). Reading through a null pointer,
  from a freed block or past the end of a block is a fault.
\<close>

definition mem_read :: "ptr \<Rightarrow> nat \<Rightarrow> nat \<Rightarrow> 'e kmem \<Rightarrow> fault + byte list" where
  "mem_read p off n m =
     (if n = 0 then Inr []
      else case p of
        Block b \<Rightarrow>
          (case blocks m b of
             None \<Rightarrow> Inl UseAfterFree
           | Some bs \<Rightarrow> if off + n \<le> length bs then Inr (take n (drop off bs)) else Inl OutOfBounds)
      | _ \<Rightarrow> Inl NullDeref)"

fun find_index :: "byte \<Rightarrow> byte list \<Rightarrow> nat option" where
  "find_index c [] = None"
| "find_index c (x # xs) = (if x = c then Some 0 else map_option Suc (find_index c xs))"

definition memchr :: "ptr \<Rightarrow> nat \<Rightarrow> byte \<Rightarrow> nat \<Rightarrow> 'e kmem \<Rightarrow> fault + nat option" where
  "memchr p off c n m = bindE (mem_read p off n m) (\<lambda>bs. Inr (find_index c bs))"

lemma find_index_None_iff: "find_index c xs = None \<longleftrightarrow> c \<notin> set xs"
  by (induction xs) auto

lemma kernel_okD:
  assumes "kernel_ok K"
  shows "kmalloc_ok K" "krealloc_ok K" "kfree_ok K" "copy_from_user_ok K" "copy_to_user_ok K"
  using assms by (simp_all add: kernel_ok_def)

lemma kmallocE:
  assumes "kernel_ok K"
  obtains p m' where "kmalloc K n m = (p, m')" and "alloc_result n (blocks m) p (blocks m')"
  using assms by (metis kernel_okD(1) kmalloc_ok_def prod.collapse)

lemma alloc_result_cases:
  assumes "alloc_result n B p B'"
  obtains (failed) "p = NULL" "B' = B"
    | (zero) "n = 0" "p = ZERO_SIZE_PTR" "B' = B"
    | (fresh) b bs where "p = Block b" "n \<noteq> 0" "B b = None" "B' = B(b \<mapsto> bs)"
        "length bs = unat n" "unat n \<le> kmalloc_limit"
  using assms unfolding alloc_result_def by blast

lemma krealloc_null:
  assumes "kernel_ok K"
  obtains p m' where "krealloc K NULL n m = Inr (p, m')" and "alloc_result n (blocks m) p (blocks m')"
  using kernel_okD(2) [OF assms] unfolding krealloc_ok_def by blast

lemma krealloc_live:
  assumes "kernel_ok K" and "blocks m b = Some bs" and "n \<noteq> 0"
  obtains (failed) m' where "krealloc K (Block b) n m = Inr (NULL, m')" and "blocks m' = blocks m"
    | (moved) b' cs m' where "krealloc K (Block b) n m = Inr (Block b', m')"
        and "b' = b \<or> blocks m b' = None" and "blocks m' = ((blocks m)(b := None))(b' \<mapsto> cs)"
        and "length cs = unat n" and "unat n \<le> kmalloc_limit"
        and "take (min (length bs) (unat n)) cs = take (min (length bs) (unat n)) bs"
  using kernel_okD(2) [OF assms(1), unfolded krealloc_ok_def] assms(2,3) by blast

lemma kfree_no_block:
  assumes "kernel_ok K" and "p = NULL \<or> p = ZERO_SIZE_PTR"
  obtains m' where "kfree K p m = Inr m'" and "blocks m' = blocks m"
  using kernel_okD(3) [OF assms(1)] assms(2) unfolding kfree_ok_def by blast

lemma kfree_live:
  assumes "kernel_ok K" and "blocks m b = Some bs"
  obtains m' where "kfree K (Block b) m = Inr m'" and "blocks m' = (blocks m)(b := None)"
  using kernel_okD(3) [OF assms(1)] assms(2) unfolding kfree_ok_def by blast

lemma copy_from_user_nothing:
  assumes "kernel_ok K"
  obtains m' where "copy_from_user K p off ubuf 0 m = Inr (0, m')" and "blocks m' = blocks m"
  using kernel_okD(4) [OF assms] unfolding copy_from_user_ok_def by blast

lemma copy_from_user_live:
  assumes "kernel_ok K" and "blocks m b = Some bs" and "unat off + unat n \<le> length bs"
  obtains r m' where "copy_from_user K (Block b) off ubuf n m = Inr (r, m')" and "r \<le> n"
    and "unat n - unat r \<le> length ubuf"
    and "blocks m' = (blocks m)(b \<mapsto> take (unat off) bs @ take (unat n - unat r) ubuf @
           replicate (unat r) 0 @ drop (unat off + unat n) bs)"
  using kernel_okD(4) [OF assms(1)] assms(2,3) unfolding copy_from_user_ok_def by blast

lemma copy_to_user_live:
  assumes "kernel_ok K" and "blocks m b = Some bs" and "unat n \<le> length bs"
  obtains r m' where "copy_to_user K (Block b) n m = Inr ((r, take (unat n - unat r) bs), m')"
    and "r \<le> n" and "blocks m' = blocks m"
  using kernel_okD(5) [OF assms(1)] assms(2,3) unfolding copy_to_user_ok_def by blast

section \<open>A reference kernel\<close>

text \<open>
  An instance of the interface that satisfies the contract, on which concrete runs are evaluated.
  Its environment is the next block number and a list of failures to inject: each allocation
  takes one element, and fails when the element is \<open>True\<close> or the request exceeds the limit.
\<close>

type_synonym ref_env = "nat \<times> bool list"

definition ref_alloc :: "size_t \<Rightarrow> byte list \<Rightarrow> ref_env kmem \<Rightarrow> ptr \<times> ref_env kmem" where
  "ref_alloc n old m =
     (let (next, fails) = kenv m;
          m1 = m\<lparr>kenv := (Suc next, tl fails)\<rparr>
      in if (fails \<noteq> [] \<and> hd fails) \<or> kmalloc_limit < unat n \<or> blocks m next \<noteq> None then (NULL, m1)
         else if n = 0 then (ZERO_SIZE_PTR, m1)
         else (Block next,
               m1\<lparr>blocks := (blocks m)(next \<mapsto> take (unat n) old @ replicate (unat n - length old) 0)\<rparr>))"

definition ref_krealloc :: "ptr \<Rightarrow> size_t \<Rightarrow> ref_env kmem \<Rightarrow> fault + ptr \<times> ref_env kmem" where
  "ref_krealloc p n m =
     (case p of
        Block b \<Rightarrow>
          (case blocks m b of
             None \<Rightarrow> Inl UseAfterFree
           | Some bs \<Rightarrow>
               (case ref_alloc n bs m of
                  (NULL, m1) \<Rightarrow> Inr (NULL, m1)
                | (p', m1) \<Rightarrow> Inr (p', m1\<lparr>blocks := (blocks m1)(b := None)\<rparr>)))
      | _ \<Rightarrow> Inr (ref_alloc n [] m))"

definition ref_kfree :: "ptr \<Rightarrow> ref_env kmem \<Rightarrow> fault + ref_env kmem" where
  "ref_kfree p m =
     (case p of
        Block b \<Rightarrow> if blocks m b = None then Inl BadFree else Inr (m\<lparr>blocks := (blocks m)(b := None)\<rparr>)
      | _ \<Rightarrow> Inr m)"

definition ref_copy_from_user ::
  "ptr \<Rightarrow> size_t \<Rightarrow> byte list \<Rightarrow> size_t \<Rightarrow> ref_env kmem \<Rightarrow> fault + size_t \<times> ref_env kmem" where
  "ref_copy_from_user p off ubuf n m =
     (if n = 0 then Inr (0, m)
      else case p of
        Block b \<Rightarrow>
          (case blocks m b of
             None \<Rightarrow> Inl UseAfterFree
           | Some bs \<Rightarrow>
               if length bs < unat off + unat n then Inl OutOfBounds
               else
                 let r = unat n - length ubuf
                 in Inr (of_nat r, m\<lparr>blocks := (blocks m)(b \<mapsto>
                      take (unat off) bs @ take (unat n - r) ubuf @ replicate r 0 @
                      drop (unat off + unat n) bs)\<rparr>))
      | _ \<Rightarrow> Inl NullDeref)"

definition ref_copy_to_user ::
  "ptr \<Rightarrow> size_t \<Rightarrow> ref_env kmem \<Rightarrow> fault + (size_t \<times> byte list) \<times> ref_env kmem" where
  "ref_copy_to_user p n m =
     (case p of
        Block b \<Rightarrow>
          (case blocks m b of
             None \<Rightarrow> Inl UseAfterFree
           | Some bs \<Rightarrow> if unat n \<le> length bs then Inr ((0, take (unat n) bs), m) else Inl OutOfBounds)
      | _ \<Rightarrow> if n = 0 then Inr ((0, []), m) else Inl NullDeref)"

definition ref_kernel :: "ref_env kernel_api" where
  "ref_kernel = \<lparr>kmalloc = (\<lambda>n. ref_alloc n []), krealloc = ref_krealloc, kfree = ref_kfree,
     copy_from_user = ref_copy_from_user, copy_to_user = ref_copy_to_user\<rparr>"

lemma ref_alloc_result:
  "alloc_result n (blocks m) (fst (ref_alloc n old m)) (blocks (snd (ref_alloc n old m)))"
  by (auto simp: ref_alloc_def alloc_result_def Let_def split: prod.splits)

lemma ref_alloc_Block:
  assumes "ref_alloc n old m = (Block b, m')"
  shows "blocks m b = None" and "n \<noteq> 0" and "unat n \<le> kmalloc_limit"
    and "blocks m' = (blocks m)(b \<mapsto> take (unat n) old @ replicate (unat n - length old) 0)"
  using assms by (auto simp: ref_alloc_def Let_def split: prod.splits if_splits)

lemma ref_alloc_not_Block:
  assumes "ref_alloc n old m = (p, m')" and "\<forall>b. p \<noteq> Block b"
  shows "blocks m' = blocks m" and "n \<noteq> 0 \<Longrightarrow> p = NULL"
  using assms by (auto simp: ref_alloc_def Let_def split: prod.splits if_splits)

lemma ref_krealloc_live:
  assumes live: "blocks m b = Some bs" and n: "n \<noteq> 0"
  shows "\<exists>p m'. ref_krealloc (Block b) n m = Inr (p, m') \<and>
     (p = NULL \<and> blocks m' = blocks m \<or>
      (\<exists>b' cs. p = Block b' \<and> (b' = b \<or> blocks m b' = None) \<and>
         blocks m' = ((blocks m)(b := None))(b' \<mapsto> cs) \<and>
         length cs = unat n \<and> unat n \<le> kmalloc_limit \<and>
         take (min (length bs) (unat n)) cs = take (min (length bs) (unat n)) bs))"
proof -
  obtain p m1 where a: "ref_alloc n bs m = (p, m1)" by (cases "ref_alloc n bs m")
  show ?thesis
  proof (cases p)
    case (Block b')
    from a have a': "ref_alloc n bs m = (Block b', m1)" by (simp add: Block)
    note r = ref_alloc_Block [OF a']
    have ne: "b' \<noteq> b" using r(1) live by auto
    have res: "ref_krealloc (Block b) n m = Inr (Block b', m1\<lparr>blocks := (blocks m1)(b := None)\<rparr>)"
      using live a' by (simp add: ref_krealloc_def)
    let ?cs = "take (unat n) bs @ replicate (unat n - length bs) 0"
    have "blocks (m1\<lparr>blocks := (blocks m1)(b := None)\<rparr>) = ((blocks m)(b := None))(b' \<mapsto> ?cs)"
      using r(4) ne by (simp add: fun_upd_twist)
    moreover have "length ?cs = unat n"
      and "take (min (length bs) (unat n)) ?cs = take (min (length bs) (unat n)) bs"
      by (simp_all add: min_def)
    ultimately show ?thesis
      using res r(1,3) by blast
  qed (use live n a ref_alloc_not_Block [OF a] in \<open>auto simp: ref_krealloc_def\<close>)
qed

lemma ref_krealloc_ok: "krealloc_ok ref_kernel"
  unfolding krealloc_ok_def
proof (intro conjI allI impI, goal_cases)
  case (1 n m)
  show ?case
    using ref_alloc_result [of n m "[]"]
    by (cases "ref_alloc n [] m") (auto simp: ref_kernel_def ref_krealloc_def)
next
  case (2 b bs n m)
  from ref_krealloc_live [OF 2] show ?case by (simp only: ref_kernel_def kernel_api.simps)
qed

lemma ref_kernel_ok: "kernel_ok ref_kernel"
proof -
  have "kmalloc_ok ref_kernel"
    using ref_alloc_result by (auto simp: kmalloc_ok_def ref_kernel_def)
  moreover have "kfree_ok ref_kernel"
    by (auto simp: kfree_ok_def ref_kernel_def ref_kfree_def)
  moreover have "copy_from_user_ok ref_kernel"
    by (auto simp: copy_from_user_ok_def ref_kernel_def ref_copy_from_user_def Let_def
        word_le_nat_alt)
  moreover have "copy_to_user_ok ref_kernel"
    by (auto simp: copy_to_user_ok_def ref_kernel_def ref_copy_to_user_def)
  ultimately show ?thesis
    using ref_krealloc_ok by (simp add: kernel_ok_def)
qed

lemma ref_copies_complete: "copies_complete ref_kernel"
  by (auto simp: copies_complete_def ref_kernel_def ref_copy_to_user_def split: ptr.splits option.splits if_splits)

end
