(* ===== verification/Char_Driver.thy ===== *)
theory Char_Driver
  imports Kernel_Memory
begin

text \<open>
  The character device \<^verbatim>\<open>/dev/aesdchar\<close>: \<^verbatim>\<open>aesd-char-driver/main.c\<close> and
  \<^verbatim>\<open>aesdchar.h\<close>. Every file operation is one function on the driver state; the kernel
  services it calls are the argument \<open>K\<close>. Statements with no effect on the state (PDEBUG,
  printk) are left out. An operation that faults returns \<open>Inl\<close>.
\<close>

section \<open>State\<close>

record aesd_dev =
  circular_buffer :: aesd_circular_buffer
  buffer_entry_staging :: aesd_buffer_entry
  device_mutex :: bool

text \<open>
  The module's state: kernel memory, the static device, the device numbers the module registered
  and whether its character device is live. \<open>device_mutex\<close> is \<open>True\<close> while it is held.
\<close>

type_synonym dev_t = "32 word"

record 'e driver =
  kmem :: "'e kmem"
  aesd_device :: aesd_dev
  aesd_major :: "32 word"
  aesd_minor :: "32 word"
  chrdev_regions :: "dev_t list"
  cdev_live :: bool

text \<open>The only device is the static \<^verbatim>\<open>aesd_device\<close>, which \<^verbatim>\<open>private_data\<close> points to.\<close>

datatype device_ref = AESD_DEVICE

record struct_file =
  private_data :: "device_ref option"

definition ENOMEM :: "64 word" where
  "ENOMEM = 12"

section \<open>The device mutex\<close>

definition mutex_lock :: "'e driver \<Rightarrow> fault + 'e driver" where
  "mutex_lock s =
     (if device_mutex (aesd_device s) then Inl Deadlock
      else Inr (s\<lparr>aesd_device := (aesd_device s)\<lparr>device_mutex := True\<rparr>\<rparr>))"

definition mutex_unlock :: "'e driver \<Rightarrow> fault + 'e driver" where
  "mutex_unlock s =
     (if device_mutex (aesd_device s)
      then Inr (s\<lparr>aesd_device := (aesd_device s)\<lparr>device_mutex := False\<rparr>\<rparr>)
      else Inl BadUnlock)"

abbreviation staging :: "'e driver \<Rightarrow> aesd_buffer_entry" where
  "staging s \<equiv> buffer_entry_staging (aesd_device s)"

definition set_staging :: "aesd_buffer_entry \<Rightarrow> 'e driver \<Rightarrow> 'e driver" where
  "set_staging e s = s\<lparr>aesd_device := (aesd_device s)\<lparr>buffer_entry_staging := e\<rparr>\<rparr>"

section \<open>File operations\<close>

definition aesd_open :: "struct_file \<Rightarrow> int \<times> struct_file" where
  "aesd_open filp = (0, filp\<lparr>private_data := Some AESD_DEVICE\<rparr>)"

definition aesd_release :: "struct_file \<Rightarrow> int" where
  "aesd_release filp = 0"

text \<open>
  A read returns the return value, the bytes that reached user memory, the new file position and
  the new state.
\<close>

definition aesd_read ::
  "'e kernel_api \<Rightarrow> struct_file \<Rightarrow> size_t \<Rightarrow> loff_t \<Rightarrow> 'e driver \<Rightarrow>
     fault + ssize_t \<times> byte list \<times> loff_t \<times> 'e driver" where
  "aesd_read K filp count f_pos s =
     (case private_data filp of
        None \<Rightarrow> Inl NullDeref
      | Some AESD_DEVICE \<Rightarrow>
        bindE (mutex_lock s) (\<lambda>s1.
          case aesd_circular_buffer_find_entry_offset_for_fpos
                 (circular_buffer (aesd_device s1)) f_pos of
            None \<Rightarrow> bindE (mutex_unlock s1) (\<lambda>s2. Inr (0, [], f_pos, s2))
          | Some (i, byte_rtn) \<Rightarrow>
              let buffer_entry = entry (circular_buffer (aesd_device s1)) ! i;
                  bytes_to_copy = min count (entry_size buffer_entry)
              in bindE (copy_to_user K (buffptr buffer_entry) bytes_to_copy (kmem s1))
                   (\<lambda>((bytes_not_written, out), m2).
                      let bytes_written = bytes_to_copy - bytes_not_written;
                          s2 = s1\<lparr>kmem := m2\<rparr>
                      in bindE (mutex_unlock s2)
                           (\<lambda>s3. Inr (bytes_written, out, f_pos + bytes_written, s3)))))"

text \<open>
  The first half of a write: making room for \<open>count\<close> more bytes in the staging buffer. The
  result is the offset at which to write, or \<open>None\<close> after an allocation failure.
\<close>

definition aesd_write_stage ::
  "'e kernel_api \<Rightarrow> size_t \<Rightarrow> 'e driver \<Rightarrow> fault + size_t option \<times> 'e driver" where
  "aesd_write_stage K count s =
     (if entry_size (staging s) = 0 then
        (let (p, m) = kmalloc K count (kmem s);
             s1 = set_staging ((staging s)\<lparr>buffptr := p\<rparr>) (s\<lparr>kmem := m\<rparr>)
         in if p = NULL then Inr (None, s1)
            else Inr (Some 0, set_staging ((staging s1)\<lparr>entry_size := count\<rparr>) s1))
      else
        bindE (krealloc K (buffptr (staging s)) (entry_size (staging s) + count) (kmem s))
          (\<lambda>(p, m).
             let s1 = set_staging ((staging s)\<lparr>buffptr := p\<rparr>) (s\<lparr>kmem := m\<rparr>)
             in if p = NULL then
                  bindE (kfree K (buffptr (staging s1)) (kmem s1)) (\<lambda>m2. Inr (None, s1\<lparr>kmem := m2\<rparr>))
                else
                  Inr (Some (entry_size (staging s1)),
                       set_staging ((staging s1)\<lparr>entry_size := entry_size (staging s1) + count\<rparr>) s1)))"

text \<open>
  The second half: with the terminator in the new bytes, the staged entry moves to the ring and
  the entry it replaces is freed.
\<close>

definition aesd_write_commit :: "'e kernel_api \<Rightarrow> 'e driver \<Rightarrow> fault + 'e driver" where
  "aesd_write_commit K s =
     bindE (aesd_circular_buffer_add_entry (circular_buffer (aesd_device s)) (staging s))
       (\<lambda>(replaced_buffptr, cb).
          let s1 = s\<lparr>aesd_device := (aesd_device s)\<lparr>circular_buffer := cb\<rparr>\<rparr>
          in bindE (if replaced_buffptr \<noteq> NULL then kfree K replaced_buffptr (kmem s1) else Inr (kmem s1))
               (\<lambda>m. Inr (set_staging zero_entry (s1\<lparr>kmem := m\<rparr>))))"

definition aesd_write ::
  "'e kernel_api \<Rightarrow> struct_file \<Rightarrow> byte list \<Rightarrow> size_t \<Rightarrow> loff_t \<Rightarrow> 'e driver \<Rightarrow>
     fault + ssize_t \<times> loff_t \<times> 'e driver" where
  "aesd_write K filp buf count f_pos s =
     (case private_data filp of
        None \<Rightarrow> Inl NullDeref
      | Some AESD_DEVICE \<Rightarrow>
        bindE (mutex_lock s) (\<lambda>s1.
        bindE (aesd_write_stage K count s1) (\<lambda>(staging_offset_opt, s2).
          case staging_offset_opt of
            None \<Rightarrow> bindE (mutex_unlock s2) (\<lambda>s3. Inr (- ENOMEM, f_pos, s3))
          | Some staging_offset \<Rightarrow>
            bindE (copy_from_user K (buffptr (staging s2)) staging_offset buf count (kmem s2)) (\<lambda>(retval, m).
              let s3 = s2\<lparr>kmem := m\<rparr> in
              if sint retval < 0 then
                bindE (kfree K (buffptr (staging s3)) (kmem s3)) (\<lambda>m4.
                bindE (mutex_unlock (s3\<lparr>kmem := m4\<rparr>)) (\<lambda>s5. Inr (retval, f_pos, s5)))
              else
                let bytes_copied = count - retval;
                    f_pos' = f_pos + bytes_copied
                in bindE (memchr (buffptr (staging s3)) (unat staging_offset) 10 (unat count) (kmem s3))
                     (\<lambda>end_of_line.
                        case end_of_line of
                          None \<Rightarrow> bindE (mutex_unlock s3) (\<lambda>s4. Inr (bytes_copied, f_pos', s4))
                        | Some _ \<Rightarrow>
                            bindE (aesd_write_commit K s3) (\<lambda>s4.
                            bindE (mutex_unlock s4) (\<lambda>s5. Inr (bytes_copied, f_pos', s5))))))))"

section \<open>Loading and unloading the module\<close>

text \<open>
  Device numbers: \<^verbatim>\<open>MAJOR\<close> and \<^verbatim>\<open>MKDEV\<close> with the 20 minor bits of the kernel. The results
  of \<^verbatim>\<open>alloc_chrdev_region\<close> (return value and device number) and of \<^verbatim>\<open>cdev_add\<close> are
  arguments.
\<close>

definition MAJOR :: "dev_t \<Rightarrow> 32 word" where
  "MAJOR dev = drop_bit 20 dev"

definition MKDEV :: "32 word \<Rightarrow> 32 word \<Rightarrow> dev_t" where
  "MKDEV ma mi = or (push_bit 20 ma) mi"

definition aesd_setup_cdev :: "int \<Rightarrow> 'e driver \<Rightarrow> int \<times> 'e driver" where
  "aesd_setup_cdev cdev_add_result s = (cdev_add_result, s\<lparr>cdev_live := (cdev_add_result = 0)\<rparr>)"

definition zero_device :: aesd_dev where
  "zero_device = \<lparr>circular_buffer = aesd_circular_buffer_init
       \<lparr>entry = [], in_offs = 0, out_offs = 0, full = False\<rparr>,
     buffer_entry_staging = zero_entry, device_mutex = False\<rparr>"

definition aesd_init_module :: "int \<Rightarrow> dev_t \<Rightarrow> int \<Rightarrow> 'e driver \<Rightarrow> int \<times> 'e driver" where
  "aesd_init_module region_result dev cdev_add_result s =
     (let s1 = s\<lparr>aesd_major := MAJOR dev\<rparr> in
      if region_result < 0 then (region_result, s1)
      else
        let s2 = s1\<lparr>chrdev_regions := dev # chrdev_regions s1, aesd_device := zero_device\<rparr>;
            s3 = s2\<lparr>aesd_device := (aesd_device s2)\<lparr>circular_buffer :=
                   aesd_circular_buffer_init (circular_buffer (aesd_device s2)), device_mutex := False\<rparr>\<rparr>;
            (result, s4) = aesd_setup_cdev cdev_add_result s3
        in (result, if result \<noteq> 0 then s4\<lparr>chrdev_regions := remove1 dev (chrdev_regions s4)\<rparr> else s4))"

definition free_entry :: "'e kernel_api \<Rightarrow> aesd_buffer_entry \<Rightarrow> 'e kmem \<Rightarrow> fault + 'e kmem" where
  "free_entry K e m = (if buffptr e \<noteq> NULL then kfree K (buffptr e) m else Inr m)"

definition aesd_cleanup_module :: "'e kernel_api \<Rightarrow> 'e driver \<Rightarrow> fault + 'e driver" where
  "aesd_cleanup_module K s =
     (let devno = MKDEV (aesd_major s) (aesd_minor s);
          s1 = s\<lparr>cdev_live := False\<rparr>
      in bindE (AESD_CIRCULAR_BUFFER_FOREACH (free_entry K) (circular_buffer (aesd_device s1)) 0 (kmem s1)) (\<lambda>m.
         bindE (free_entry K (staging s1) m) (\<lambda>m2.
           Inr (s1\<lparr>kmem := m2, chrdev_regions := remove1 devno (chrdev_regions s1)\<rparr>))))"

end
