(* ===== verification/Driver_Memory.thy ===== *)
theory Driver_Memory
  imports Char_Driver
begin

text \<open>
  Ownership of kernel memory by the character driver, the abstract device it implements, and the
  behaviour of the two halves of a write (making room and filling the staging buffer, committing
  the staged line to the ring) on memory.
\<close>

section \<open>Ownership\<close>

text \<open>
  A stored entry owns a live block whose length is the recorded size. \<open>data_of\<close> reads the
  bytes of an entry, \<open>block_of\<close> names its block.
\<close>

definition owns :: "heap \<Rightarrow> aesd_buffer_entry \<Rightarrow> bool" where
  "owns B e =
     (case buffptr e of
        Block b \<Rightarrow>
          (case B b of
             None \<Rightarrow> False
           | Some bs \<Rightarrow> length bs = unat (entry_size e) \<and> bs \<noteq> [] \<and> length bs \<le> kmalloc_limit)
      | _ \<Rightarrow> False)"

definition data_of :: "heap \<Rightarrow> aesd_buffer_entry \<Rightarrow> byte list" where
  "data_of B e = (case buffptr e of Block b \<Rightarrow> (case B b of None \<Rightarrow> [] | Some bs \<Rightarrow> bs) | _ \<Rightarrow> [])"

definition block_of :: "aesd_buffer_entry \<Rightarrow> nat list" where
  "block_of e = (case buffptr e of Block b \<Rightarrow> [b] | _ \<Rightarrow> [])"

definition blocks_of :: "aesd_buffer_entry list \<Rightarrow> nat list" where
  "blocks_of es = concat (map block_of es)"

definition drop_blocks :: "nat list \<Rightarrow> heap \<Rightarrow> heap" where
  "drop_blocks xs B = (\<lambda>b. if b \<in> set xs then None else B b)"

text \<open>
  The staging entry is empty or owns its block. After a failed \<^verbatim>\<open>krealloc\<close> the code leaves a
  null pointer beside a non-zero size; \<open>staging_safe\<close> allows that state, \<open>staging_wf\<close> does not.
\<close>

definition staging_safe :: "heap \<Rightarrow> aesd_buffer_entry \<Rightarrow> bool" where
  "staging_safe B e =
     (case buffptr e of
        Block b \<Rightarrow> owns B e
      | ZERO_SIZE_PTR \<Rightarrow> entry_size e = 0
      | NULL \<Rightarrow> unat (entry_size e) \<le> kmalloc_limit)"

definition staging_wf :: "heap \<Rightarrow> aesd_buffer_entry \<Rightarrow> bool" where
  "staging_wf B e \<longleftrightarrow> staging_safe B e \<and> (buffptr e = NULL \<longrightarrow> entry_size e = 0)"

definition dev_safe :: "heap \<Rightarrow> aesd_circular_buffer \<Rightarrow> aesd_buffer_entry \<Rightarrow> bool" where
  "dev_safe B cb st \<longleftrightarrow>
     ring_inv cb \<and> list_all (owns B) (contents cb) \<and> staging_safe B st \<and>
     distinct (blocks_of (contents cb @ [st]))"

definition drv_safe :: "'e driver \<Rightarrow> bool" where
  "drv_safe s \<longleftrightarrow>
     dev_safe (blocks (kmem s)) (circular_buffer (aesd_device s)) (staging s) \<and>
     \<not> device_mutex (aesd_device s)"

definition drv_inv :: "'e driver \<Rightarrow> bool" where
  "drv_inv s \<longleftrightarrow> drv_safe s \<and> staging_wf (blocks (kmem s)) (staging s)"

section \<open>Abstract device\<close>

text \<open>
  What the device promises: complete writes, oldest first, and the bytes of a line that is not
  complete yet. A write that contains the terminator completes the line.
\<close>

record device_spec =
  spec_log :: "byte list list"
  spec_staged :: "byte list"

definition spec_write :: "byte list \<Rightarrow> device_spec \<Rightarrow> device_spec" where
  "spec_write d a =
     (if 10 \<in> set d
      then \<lparr>spec_log = lastn 10 (spec_log a @ [spec_staged a @ d]), spec_staged = []\<rparr>
      else a\<lparr>spec_staged := spec_staged a @ d\<rparr>)"

definition drv_abs :: "'e driver \<Rightarrow> device_spec" where
  "drv_abs s =
     \<lparr>spec_log = map (data_of (blocks (kmem s))) (contents (circular_buffer (aesd_device s))),
      spec_staged = data_of (blocks (kmem s)) (staging s)\<rparr>"

text \<open>The blocks the driver owns, and the blocks of kernel memory that it does not own.\<close>

definition owned :: "'e driver \<Rightarrow> nat set" where
  "owned s = set (blocks_of (contents (circular_buffer (aesd_device s)) @ [staging s]))"

definition unowned :: "'e driver \<Rightarrow> nat set" where
  "unowned s = dom (blocks (kmem s)) - owned s"

section \<open>Frame lemmas\<close>

named_theorems frame \<open>updates of a block that an entry does not own\<close>

lemma block_of_simps [simp]:
  "block_of \<lparr>buffptr = Block b, entry_size = n\<rparr> = [b]"
  "buffptr e = Block b \<Longrightarrow> block_of e = [b]"
  "buffptr e = NULL \<Longrightarrow> block_of e = []"
  "buffptr e = ZERO_SIZE_PTR \<Longrightarrow> block_of e = []"
  by (simp_all add: block_of_def)

lemma blocks_of_simps [simp]:
  "blocks_of [] = []"
  "blocks_of (e # es) = block_of e @ blocks_of es"
  "blocks_of (es @ es') = blocks_of es @ blocks_of es'"
  by (simp_all add: blocks_of_def)

lemma set_blocks_of: "set (blocks_of es) = (\<Union>e \<in> set es. set (block_of e))"
  by (induction es) auto

lemma owns_upd [frame]: "b \<notin> set (block_of e) \<Longrightarrow> owns (B(b := x)) e = owns B e"
  by (auto simp: owns_def block_of_def split: ptr.splits)

lemma data_of_upd [frame]: "b \<notin> set (block_of e) \<Longrightarrow> data_of (B(b := x)) e = data_of B e"
  by (auto simp: data_of_def block_of_def split: ptr.splits)

lemma owns_drop [frame]:
  "set xs \<inter> set (block_of e) = {} \<Longrightarrow> owns (drop_blocks xs B) e = owns B e"
  by (auto simp: owns_def block_of_def drop_blocks_def split: ptr.splits)

lemma data_of_drop [frame]:
  "set xs \<inter> set (block_of e) = {} \<Longrightarrow> data_of (drop_blocks xs B) e = data_of B e"
  by (auto simp: data_of_def block_of_def drop_blocks_def split: ptr.splits)

lemma list_all_owns_upd [frame]:
  "b \<notin> set (blocks_of es) \<Longrightarrow> list_all (owns (B(b := x))) es = list_all (owns B) es"
  by (induction es) (simp_all add: frame)

lemma map_data_of_upd [frame]:
  "b \<notin> set (blocks_of es) \<Longrightarrow> map (data_of (B(b := x))) es = map (data_of B) es"
  by (induction es) (simp_all add: frame)

lemma list_all_owns_drop [frame]:
  "set xs \<inter> set (blocks_of es) = {} \<Longrightarrow> list_all (owns (drop_blocks xs B)) es = list_all (owns B) es"
  by (induction es) (simp_all add: frame Int_Un_distrib)

lemma map_data_of_drop [frame]:
  "set xs \<inter> set (blocks_of es) = {} \<Longrightarrow> map (data_of (drop_blocks xs B)) es = map (data_of B) es"
  by (induction es) (simp_all add: frame Int_Un_distrib)

lemma drop_blocks_simps [simp]:
  "drop_blocks [] B = B"
  "drop_blocks [b] B = B(b := None)"
  by (auto simp: drop_blocks_def)

lemma ownsE:
  assumes "owns B e"
  obtains b bs where "buffptr e = Block b" and "B b = Some bs" and "length bs = unat (entry_size e)"
    and "bs \<noteq> []" and "length bs \<le> kmalloc_limit"
  using assms by (auto simp: owns_def split: ptr.splits option.splits)

lemma owned_live: "list_all (owns B) es \<Longrightarrow> set (blocks_of es) \<subseteq> dom B"
  by (induction es) (auto elim!: ownsE)

lemma owns_size: "owns B e \<Longrightarrow> length (data_of B e) = unat (entry_size e)"
  by (auto simp: owns_def data_of_def split: ptr.splits option.splits)

lemma staging_data_length:
  "staging_wf B e \<Longrightarrow> length (data_of B e) = unat (entry_size e)"
  by (auto simp: staging_wf_def staging_safe_def data_of_def owns_size split: ptr.splits)
    (simp add: owns_def split: option.splits)

lemma staging_size_bound: "staging_safe B e \<Longrightarrow> unat (entry_size e) \<le> kmalloc_limit"
  by (auto simp: staging_safe_def owns_def split: ptr.splits option.splits)

section \<open>Making room in the staging buffer\<close>

text \<open>
  What a successful first half of a write leaves: room for the new bytes behind the staged ones,
  in a block that no stored entry owns.
\<close>

definition staged_room :: "heap \<Rightarrow> aesd_buffer_entry \<Rightarrow> size_t \<Rightarrow> heap \<Rightarrow> aesd_buffer_entry \<Rightarrow> bool" where
  "staged_room B st count B' st' \<longleftrightarrow>
     entry_size st' = entry_size st + count \<and>
     (count = 0 \<and> entry_size st = 0 \<and> buffptr st' = ZERO_SIZE_PTR \<and> B' = B \<and> block_of st = [] \<or>
      (\<exists>b' cs. buffptr st' = Block b' \<and> (b' \<in> set (block_of st) \<or> B b' = None) \<and>
         B' = (drop_blocks (block_of st) B)(b' \<mapsto> cs) \<and>
         length cs = unat (entry_size st) + unat count \<and> cs \<noteq> [] \<and> length cs \<le> kmalloc_limit \<and>
         (staging_wf B st \<longrightarrow> take (unat (entry_size st)) cs = data_of B st)))"

lemma staged_room_BlockI:
  assumes "entry_size st' = entry_size st + count" and "buffptr st' = Block b'"
    and "b' \<in> set (block_of st) \<or> B b' = None"
    and "B' = (drop_blocks (block_of st) B)(b' \<mapsto> cs)"
    and "length cs = unat (entry_size st) + unat count" and "cs \<noteq> []" and "length cs \<le> kmalloc_limit"
    and "staging_wf B st \<longrightarrow> take (unat (entry_size st)) cs = data_of B st"
  shows "staged_room B st count B' st'"
  using assms unfolding staged_room_def by blast

definition stage_outcome :: "'e kernel_api \<Rightarrow> size_t \<Rightarrow> 'e driver \<Rightarrow> bool" where
  "stage_outcome K count s \<longleftrightarrow>
     (\<exists>m. aesd_write_stage K count s =
        Inr (None, set_staging ((staging s)\<lparr>buffptr := NULL\<rparr>) (s\<lparr>kmem := m\<rparr>)) \<and>
        blocks m = blocks (kmem s)) \<or>
     (\<exists>m st'. aesd_write_stage K count s =
        Inr (Some (entry_size (staging s)), set_staging st' (s\<lparr>kmem := m\<rparr>)) \<and>
        staged_room (blocks (kmem s)) (staging s) count (blocks m) st')"

lemma stage_failedI:
  "aesd_write_stage K count s =
     Inr (None, set_staging ((staging s)\<lparr>buffptr := NULL\<rparr>) (s\<lparr>kmem := m\<rparr>)) \<Longrightarrow>
   blocks m = blocks (kmem s) \<Longrightarrow> stage_outcome K count s"
  by (auto simp: stage_outcome_def)

lemma stage_roomI:
  "aesd_write_stage K count s =
     Inr (Some (entry_size (staging s)), set_staging st' (s\<lparr>kmem := m\<rparr>)) \<Longrightarrow>
   staged_room (blocks (kmem s)) (staging s) count (blocks m) st' \<Longrightarrow> stage_outcome K count s"
  by (auto simp: stage_outcome_def)

lemma write_size_bound:
  assumes "staging_safe B st" and "unat count \<le> max_rw_count"
  shows "unat (entry_size st + count) = unat (entry_size st) + unat count"
  using assms staging_size_bound [OF assms(1)]
  by (intro unat_add_size_t) (simp add: kmalloc_limit_def max_rw_count_def)

lemma set_staging_simps [simp]:
  "staging (set_staging e s) = e"
  "kmem (set_staging e s) = kmem s"
  "circular_buffer (aesd_device (set_staging e s)) = circular_buffer (aesd_device s)"
  "device_mutex (aesd_device (set_staging e s)) = device_mutex (aesd_device s)"
  "set_staging e (set_staging e' s) = set_staging e s"
  "(set_staging e s)\<lparr>kmem := m\<rparr> = set_staging e (s\<lparr>kmem := m\<rparr>)"
  by (simp_all add: set_staging_def)

lemma write_stage_fresh:
  assumes K: "kernel_ok K" and "staging_safe (blocks (kmem s)) (staging s)"
    and size0: "entry_size (staging s) = 0"
  shows "stage_outcome K count s"
proof -
  have nob: "block_of (staging s) = []" "data_of (blocks (kmem s)) (staging s) = []"
    using assms(2) size0
    by (auto simp: staging_safe_def owns_def block_of_def data_of_def split: ptr.splits option.splits)
  obtain p m where al: "kmalloc K count (kmem s) = (p, m)"
    and r: "alloc_result count (blocks (kmem s)) p (blocks m)"
    using kmallocE [OF K] .
  from r show ?thesis
  proof (cases rule: alloc_result_cases)
    case failed
    then show ?thesis using al size0 by (intro stage_failedI [of _ _ _ m]) (simp_all add: aesd_write_stage_def)
  next
    case zero
    then have "aesd_write_stage K count s = Inr (Some (entry_size (staging s)),
        set_staging ((staging s)\<lparr>buffptr := ZERO_SIZE_PTR, entry_size := 0\<rparr>) (s\<lparr>kmem := m\<rparr>))"
      using al size0 by (simp add: aesd_write_stage_def)
    then show ?thesis
      by (rule stage_roomI) (use zero size0 nob in \<open>simp add: staged_room_def\<close>)
  next
    case (fresh b bs)
    then have "aesd_write_stage K count s = Inr (Some (entry_size (staging s)),
        set_staging ((staging s)\<lparr>buffptr := Block b, entry_size := count\<rparr>) (s\<lparr>kmem := m\<rparr>))"
      using al size0 by (simp add: aesd_write_stage_def)
    moreover have "bs \<noteq> []" using fresh by (auto simp: word_unat_eq_iff)
    ultimately show ?thesis
      using fresh size0 nob by (intro stage_roomI staged_room_BlockI [of _ _ _ b _ _ bs]) auto
  qed
qed

lemma write_stage_grow:
  assumes K: "kernel_ok K" and safe: "staging_safe (blocks (kmem s)) (staging s)"
    and bound: "unat count \<le> max_rw_count" and size: "entry_size (staging s) \<noteq> 0"
  shows "stage_outcome K count s"
proof -
  let ?st = "staging s" and ?B = "blocks (kmem s)"
  let ?n = "entry_size ?st + count"
  have n: "unat ?n = unat (entry_size ?st) + unat count"
    using safe bound by (rule write_size_bound)
  have pos: "0 < unat (entry_size ?st)" using size by (simp add: unat_gt_0)
  with n have n0: "?n \<noteq> 0" by (metis add_is_0 less_nat_zero_code unat_0)
  have result: ?thesis
    if kr: "krealloc K (buffptr ?st) ?n (kmem s) = Inr (p, m)"
      and p: "p = NULL \<and> blocks m = ?B \<or>
        (\<exists>b' cs. p = Block b' \<and> (b' \<in> set (block_of ?st) \<or> ?B b' = None) \<and>
          blocks m = (drop_blocks (block_of ?st) ?B)(b' \<mapsto> cs) \<and> length cs = unat ?n \<and>
          unat ?n \<le> kmalloc_limit \<and>
          (staging_wf ?B ?st \<longrightarrow> take (unat (entry_size ?st)) cs = data_of ?B ?st))" for p m
  proof (cases "p = NULL")
    case True
    obtain m' where "kfree K NULL m = Inr m'" and "blocks m' = blocks m"
      by (rule kfree_no_block [OF K, of NULL m]) simp_all
    with True kr p size show ?thesis
      by (intro stage_failedI [of _ _ _ m']) (simp_all add: aesd_write_stage_def Let_def)
  next
    case False
    with p obtain b' cs where p': "p = Block b'" and b': "b' \<in> set (block_of ?st) \<or> ?B b' = None"
      and m: "blocks m = (drop_blocks (block_of ?st) ?B)(b' \<mapsto> cs)" and len: "length cs = unat ?n"
      and lim: "unat ?n \<le> kmalloc_limit"
      and wf: "staging_wf ?B ?st \<longrightarrow> take (unat (entry_size ?st)) cs = data_of ?B ?st"
      by auto
    have "aesd_write_stage K count s = Inr (Some (entry_size ?st),
        set_staging (?st\<lparr>buffptr := Block b', entry_size := ?n\<rparr>) (s\<lparr>kmem := m\<rparr>))"
      using kr p' size by (simp add: aesd_write_stage_def Let_def)
    moreover have "staged_room ?B ?st count (blocks m) (?st\<lparr>buffptr := Block b', entry_size := ?n\<rparr>)"
      using b' m len lim wf n pos by (intro staged_room_BlockI [of _ _ _ b' _ _ cs]) auto
    ultimately show ?thesis by (rule stage_roomI)
  qed
  show ?thesis
  proof (cases "buffptr ?st")
    case NULL
    obtain p m where "krealloc K NULL ?n (kmem s) = Inr (p, m)" "alloc_result ?n ?B p (blocks m)"
      using krealloc_null [OF K] .
    with NULL n0 size show ?thesis
      by (intro result [of p m]) (auto elim!: alloc_result_cases simp: staging_wf_def)
  next
    case ZERO_SIZE_PTR
    with safe size show ?thesis by (simp add: staging_safe_def)
  next
    case (Block b)
    with safe have "owns ?B ?st" by (simp add: staging_safe_def)
    then obtain bs where bs: "?B b = Some bs" "length bs = unat (entry_size ?st)"
      using Block by (auto elim!: ownsE)
    have data: "data_of ?B ?st = bs" using Block bs by (simp add: data_of_def)
    from K bs(1) n0 show ?thesis
    proof (cases rule: krealloc_live)
      case (failed m)
      then show ?thesis by (intro result [of NULL m]) (simp_all add: Block)
    next
      case (moved b' cs m)
      then have "take (unat (entry_size ?st)) cs = bs" using bs n by simp
      with moved show ?thesis
        by (intro result [of "Block b'" m] disjI2 exI [of _ b'] exI [of _ cs]) (simp_all add: Block data)
    qed
  qed
qed

section \<open>Filling the staging buffer\<close>

text \<open>The state of memory once the bytes \<open>d\<close> are behind the staged ones.\<close>

definition filled :: "heap \<Rightarrow> aesd_buffer_entry \<Rightarrow> byte list \<Rightarrow> heap \<Rightarrow> aesd_buffer_entry \<Rightarrow> bool" where
  "filled B st d B' st' \<longleftrightarrow>
     d = [] \<and> entry_size st = 0 \<and> entry_size st' = 0 \<and> buffptr st' = ZERO_SIZE_PTR \<and> B' = B \<and> block_of st = [] \<or>
     (\<exists>b' pre. buffptr st' = Block b' \<and> (b' \<in> set (block_of st) \<or> B b' = None) \<and>
        B' = (drop_blocks (block_of st) B)(b' \<mapsto> pre @ d) \<and>
        length pre = unat (entry_size st) \<and> unat (entry_size st') = length (pre @ d) \<and>
        pre @ d \<noteq> [] \<and> length (pre @ d) \<le> kmalloc_limit \<and> (staging_wf B st \<longrightarrow> pre = data_of B st))"

text \<open>The bytes that a copy of \<open>count\<close> bytes, \<open>r\<close> of them missing, stores.\<close>

definition received :: "byte list \<Rightarrow> size_t \<Rightarrow> size_t \<Rightarrow> byte list" where
  "received buf count r = take (unat count - unat r) buf @ replicate (unat r) 0"

lemma length_received:
  "r \<le> count \<Longrightarrow> unat count - unat r \<le> length buf \<Longrightarrow> length (received buf count r) = unat count"
  by (simp add: received_def word_le_nat_alt)

lemma fill_staged:
  assumes K: "kernel_ok K" and room: "staged_room B st count (blocks m) st'"
    and size: "unat (entry_size st + count) = unat (entry_size st) + unat count"
  obtains r m' where "copy_from_user K (buffptr st') (entry_size st) buf count m = Inr (r, m')"
    and "r \<le> count" and "unat count - unat r \<le> length buf"
    and "filled B st (received buf count r) (blocks m') st'"
    and "memchr (buffptr st') (unat (entry_size st)) 10 (unat count) m' =
           Inr (find_index 10 (received buf count r))"
proof -
  from room consider (zero) "count = 0" "entry_size st = 0" "buffptr st' = ZERO_SIZE_PTR"
      "blocks m = B" "block_of st = []" "entry_size st' = entry_size st + count"
    | (block) b' cs where "buffptr st' = Block b'" "b' \<in> set (block_of st) \<or> B b' = None"
      "blocks m = (drop_blocks (block_of st) B)(b' \<mapsto> cs)"
      "length cs = unat (entry_size st) + unat count" "cs \<noteq> []" "length cs \<le> kmalloc_limit"
      "staging_wf B st \<longrightarrow> take (unat (entry_size st)) cs = data_of B st"
      "entry_size st' = entry_size st + count"
    unfolding staged_room_def by blast
  then show thesis
  proof cases
    case zero
    obtain m' where "copy_from_user K (buffptr st') (entry_size st) buf 0 m = Inr (0, m')"
      and "blocks m' = blocks m"
      using copy_from_user_nothing [OF K] .
    with zero show thesis
      by (intro that [of 0 m']) (simp_all add: filled_def received_def memchr_def mem_read_def)
  next
    case (block b' cs)
    then have "blocks m b' = Some cs" and "unat (entry_size st) + unat count \<le> length cs" by simp_all
    with K obtain r m' where cp: "copy_from_user K (Block b') (entry_size st) buf count m = Inr (r, m')"
      and r: "r \<le> count" "unat count - unat r \<le> length buf"
      and m': "blocks m' = (blocks m)(b' \<mapsto> take (unat (entry_size st)) cs @
          take (unat count - unat r) buf @ replicate (unat r) 0 @
          drop (unat (entry_size st) + unat count) cs)"
      by (rule copy_from_user_live)
    let ?pre = "take (unat (entry_size st)) cs" and ?d = "received buf count r"
    have m'': "blocks m' = (drop_blocks (block_of st) B)(b' \<mapsto> ?pre @ ?d)"
      using m' block by (simp add: received_def)
    have len: "length ?pre = unat (entry_size st)" "length ?d = unat count"
      using block length_received [OF r] by simp_all
    then have "length (?pre @ ?d) = length cs" using block by simp
    then have fill: "filled B st ?d (blocks m') st'"
      unfolding filled_def using m'' block len size
      by (intro disjI2 exI [of _ b'] exI [of _ ?pre]) auto
    have "memchr (buffptr st') (unat (entry_size st)) 10 (unat count) m' = Inr (find_index 10 ?d)"
      using m'' block len by (cases "unat count = 0") (simp_all add: memchr_def mem_read_def)
    with cp r fill show thesis by (intro that [of r m']) (simp_all add: block)
  qed
qed

lemma filled_dev:
  assumes safe: "dev_safe B cb st" and "filled B st d B' st'"
  shows "dev_safe B' cb st'" and "staging_wf B' st'"
    and "map (data_of B') (contents cb) = map (data_of B) (contents cb)"
    and "staging_wf B st \<Longrightarrow> data_of B' st' = data_of B st @ d"
    and "dom B' - set (blocks_of (contents cb @ [st'])) = dom B - set (blocks_of (contents cb @ [st]))"
proof -
  from assms(2) consider (zero) "d = []" "entry_size st = 0" "entry_size st' = 0"
      "buffptr st' = ZERO_SIZE_PTR" "B' = B" "block_of st = []"
    | (block) b' pre where "buffptr st' = Block b'" "b' \<in> set (block_of st) \<or> B b' = None"
        "B' = (drop_blocks (block_of st) B)(b' \<mapsto> pre @ d)"
        "length pre = unat (entry_size st)" "unat (entry_size st') = length (pre @ d)"
        "pre @ d \<noteq> []" "length (pre @ d) \<le> kmalloc_limit" "staging_wf B st \<longrightarrow> pre = data_of B st"
    unfolding filled_def by blast
  then have "dev_safe B' cb st' \<and> staging_wf B' st' \<and>
      map (data_of B') (contents cb) = map (data_of B) (contents cb) \<and>
      (staging_wf B st \<longrightarrow> data_of B' st' = data_of B st @ d) \<and>
      dom B' - set (blocks_of (contents cb @ [st'])) = dom B - set (blocks_of (contents cb @ [st]))"
  proof cases
    case zero
    moreover have "data_of B st = []"
      using zero by (auto simp: block_of_def data_of_def split: ptr.splits)
    ultimately show ?thesis
      using safe by (simp add: dev_safe_def staging_safe_def staging_wf_def data_of_def)
  next
    case (block b' pre)
    have disj: "set (block_of st) \<inter> set (blocks_of (contents cb)) = {}"
      using safe by (auto simp: dev_safe_def)
    have live: "set (blocks_of (contents cb)) \<subseteq> dom B"
      using safe owned_live by (auto simp: dev_safe_def)
    have nin: "b' \<notin> set (blocks_of (contents cb))"
      using block(2) disj live by auto
    have own: "list_all (owns B') (contents cb)" and
      data: "map (data_of B') (contents cb) = map (data_of B) (contents cb)"
      using safe by (simp_all add: dev_safe_def block(3) frame disj nin)
    have "owns B' st'" using block by (auto simp: owns_def)
    with own safe nin block(1) have "dev_safe B' cb st'" "staging_wf B' st'"
      by (auto simp: dev_safe_def staging_safe_def staging_wf_def)
    moreover have "staging_wf B st \<longrightarrow> data_of B' st' = data_of B st @ d"
      using block by (auto simp: data_of_def)
    moreover have "dom B' - set (blocks_of (contents cb @ [st'])) =
        dom B - set (blocks_of (contents cb @ [st]))"
      using block(1-3) by (auto simp: drop_blocks_def split: if_splits)
    ultimately show ?thesis using data by blast
  qed
  then show "dev_safe B' cb st'" and "staging_wf B' st'"
    and "map (data_of B') (contents cb) = map (data_of B) (contents cb)"
    and "staging_wf B st \<Longrightarrow> data_of B' st' = data_of B st @ d"
    and "dom B' - set (blocks_of (contents cb @ [st'])) = dom B - set (blocks_of (contents cb @ [st]))"
    by blast+
qed

section \<open>Committing the staged line\<close>

lemma dev_safe_full_hd:
  assumes "dev_safe B cb st" and "full cb"
  obtains e es b where "contents cb = e # es" and "buffptr e = Block b" and "owns B e" and "b \<in> dom B"
    and "b \<notin> set (blocks_of es)" and "b \<notin> set (block_of st)"
proof -
  have "length (contents cb) = 10" using assms(2) by (simp add: ring_count_def)
  then obtain e es where es: "contents cb = e # es" by (cases "contents cb") simp_all
  with assms(1) have own: "owns B e" by (simp add: dev_safe_def)
  then obtain b where b: "buffptr e = Block b" "b \<in> dom B" by (elim ownsE) auto
  with assms(1) es own show thesis by (intro that [of e es b]) (auto simp: dev_safe_def)
qed

lemma dev_safe_replace:
  assumes safe: "dev_safe B cb st" and own: "owns B st" and size: "entry_size st \<noteq> 0"
    and cb': "ring_inv cb'" and contents': "contents cb' = lastn 10 (contents cb @ [st])"
    and free: "if full cb then buffptr (hd (contents cb)) = Block b \<and> B' = B(b := None) else B' = B"
  shows "dev_safe B' cb' zero_entry"
    and "map (data_of B') (contents cb') = lastn 10 (map (data_of B) (contents cb) @ [data_of B st])"
    and "dom B' - set (blocks_of (contents cb' @ [zero_entry])) =
           dom B - set (blocks_of (contents cb @ [st]))"
proof -
  have zero: "staging_safe B' zero_entry" "block_of zero_entry = []"
    by (simp_all add: staging_safe_def)
  have "dev_safe B' cb' zero_entry \<and>
      map (data_of B') (contents cb') = lastn 10 (map (data_of B) (contents cb) @ [data_of B st]) \<and>
      dom B' - set (blocks_of (contents cb' @ [zero_entry])) = dom B - set (blocks_of (contents cb @ [st]))"
  proof (cases "full cb")
    case True
    obtain e es b0 where es: "contents cb = e # es" and b0: "buffptr e = Block b0"
      and nin: "b0 \<notin> set (blocks_of es)" "b0 \<notin> set (block_of st)"
      using dev_safe_full_hd [OF safe True] .
    have len: "length (contents cb) = 10" using True by (simp add: ring_count_def)
    have c': "contents cb' = es @ [st]"
      using contents' lastn_snoc_full [OF len] by (simp add: es)
    have B': "B' = B(b0 := None)" using free True es b0 by simp
    have "lastn 10 (map (data_of B) (contents cb) @ [data_of B st]) = map (data_of B) (es @ [st])"
      using len lastn_snoc_full [of "map (data_of B) (contents cb)" 10] by (simp add: es)
    moreover have "map (data_of B') (es @ [st]) = map (data_of B) (es @ [st])"
      using nin by (simp add: B' frame)
    moreover have "list_all (owns B') (es @ [st])"
      using safe own nin by (simp add: B' frame dev_safe_def es)
    moreover have "dom B' - set (blocks_of (contents cb' @ [zero_entry])) =
        dom B - set (blocks_of (contents cb @ [st]))"
      using b0 by (auto simp: c' es B' zero)
    ultimately show ?thesis
      using safe cb' zero by (auto simp: dev_safe_def c' es)
  next
    case False
    with safe have "length (contents cb) \<le> 9"
      by (auto simp: dev_safe_def contents_not_full ring_inv_def simp del: ring_count_contents)
    then have c': "contents cb' = contents cb @ [st]" using contents' by simp
    moreover have "lastn 10 (map (data_of B) (contents cb) @ [data_of B st]) =
        map (data_of B) (contents cb) @ [data_of B st]"
      using \<open>length (contents cb) \<le> 9\<close> by (intro lastn_short) simp
    moreover have "B' = B" using free False by simp
    ultimately show ?thesis
      using safe cb' own zero by (auto simp: dev_safe_def)
  qed
  then show "dev_safe B' cb' zero_entry"
    and "map (data_of B') (contents cb') = lastn 10 (map (data_of B) (contents cb) @ [data_of B st])"
    and "dom B' - set (blocks_of (contents cb' @ [zero_entry])) =
           dom B - set (blocks_of (contents cb @ [st]))"
    by blast+
qed

lemma write_commit:
  assumes K: "kernel_ok K"
    and safe: "dev_safe (blocks (kmem s)) (circular_buffer (aesd_device s)) (staging s)"
    and wf: "staging_wf (blocks (kmem s)) (staging s)" and size: "entry_size (staging s) \<noteq> 0"
  obtains m cb' where
    "aesd_write_commit K s = Inr (set_staging zero_entry
       (s\<lparr>aesd_device := (aesd_device s)\<lparr>circular_buffer := cb'\<rparr>, kmem := m\<rparr>))"
    and "dev_safe (blocks m) cb' zero_entry"
    and "map (data_of (blocks m)) (contents cb') =
      lastn 10 (spec_log (drv_abs s) @ [spec_staged (drv_abs s)])"
    and "dom (blocks m) - set (blocks_of (contents cb' @ [zero_entry])) = unowned s"
proof -
  let ?cb = "circular_buffer (aesd_device s)" and ?B = "blocks (kmem s)" and ?st = "staging s"
  have own: "owns ?B ?st"
    using wf size by (auto simp: staging_wf_def staging_safe_def split: ptr.splits)
  have inv: "ring_inv ?cb" using safe by (simp add: dev_safe_def)
  define p where "p = (if full ?cb then buffptr (hd (contents ?cb)) else NULL)"
  obtain cb' where add: "aesd_circular_buffer_add_entry ?cb ?st = Inr (p, cb')"
    and cb': "ring_inv cb'" "contents cb' = lastn 10 (contents ?cb @ [?st])"
    using ring_add [OF inv size] unfolding p_def by blast
  obtain m where free: "(if p \<noteq> NULL then kfree K p (kmem s) else Inr (kmem s)) = Inr m"
    and m: "if full ?cb then \<exists>b. buffptr (hd (contents ?cb)) = Block b \<and> blocks m = ?B(b := None)
            else blocks m = ?B"
  proof (cases "full ?cb")
    case True
    obtain e es b where es: "contents ?cb = e # es" "buffptr e = Block b" "b \<in> dom ?B"
      using dev_safe_full_hd [OF safe True] by metis
    then obtain bs where "?B b = Some bs" by auto
    then obtain m where "kfree K (Block b) (kmem s) = Inr m" "blocks m = ?B(b := None)"
      by (rule kfree_live [OF K])
    with True es show thesis by (intro that [of m]) (auto simp: p_def)
  next
    case False
    then show thesis by (intro that [of "kmem s"]) (simp_all add: p_def)
  qed
  obtain b where "if full ?cb then buffptr (hd (contents ?cb)) = Block b \<and> blocks m = ?B(b := None)
      else blocks m = ?B"
    using m by (auto split: if_splits)
  note step = dev_safe_replace [OF safe own size cb' this]
  have "aesd_write_commit K s = Inr (set_staging zero_entry
      (s\<lparr>aesd_device := (aesd_device s)\<lparr>circular_buffer := cb'\<rparr>, kmem := m\<rparr>))"
    using add free
    by (cases "p = NULL"; cases s) (auto simp: aesd_write_commit_def set_staging_def Let_def)
  then show thesis
    by (rule that [of m cb']) (use step in \<open>simp_all add: drv_abs_def unowned_def owned_def\<close>)
qed

end
