(* ===== verification/Driver_Spec.thy ===== *)
theory Driver_Spec
  imports Driver_Memory
begin

text \<open>
  The behaviour of the character driver's operations on every branch, and the properties of the
  driver: memory safety, refinement of the abstract device, absence of leaks, reads, loading and
  unloading.
\<close>

section \<open>A whole write\<close>

definition with_mutex :: "bool \<Rightarrow> 'e driver \<Rightarrow> 'e driver" where
  "with_mutex b s = s\<lparr>aesd_device := (aesd_device s)\<lparr>device_mutex := b\<rparr>\<rparr>"

lemma with_mutex_simps [simp]:
  "staging (with_mutex b s) = staging s"
  "kmem (with_mutex b s) = kmem s"
  "circular_buffer (aesd_device (with_mutex b s)) = circular_buffer (aesd_device s)"
  "device_mutex (aesd_device (with_mutex b s)) = b"
  "(with_mutex b s)\<lparr>kmem := m\<rparr> = with_mutex b (s\<lparr>kmem := m\<rparr>)"
  "set_staging e (with_mutex b s) = with_mutex b (set_staging e s)"
  "with_mutex b (with_mutex b' s) = with_mutex b s"
  by (simp_all add: with_mutex_def set_staging_def)

lemma mutex_simps [simp]:
  "\<not> device_mutex (aesd_device s) \<Longrightarrow> mutex_lock s = Inr (with_mutex True s)"
  "mutex_unlock (with_mutex True s) = Inr (with_mutex False s)"
  by (simp_all add: mutex_lock_def mutex_unlock_def with_mutex_def)

lemma write_stage:
  assumes "kernel_ok K" and "staging_safe (blocks (kmem s)) (staging s)" and "unat count \<le> max_rw_count"
  shows "stage_outcome K count s"
  using write_stage_fresh [OF assms(1,2)] write_stage_grow [OF assms] by blast

lemma write_commit_locked:
  assumes "kernel_ok K"
    and "dev_safe (blocks (kmem s)) (circular_buffer (aesd_device s)) (staging s)"
    and "staging_wf (blocks (kmem s)) (staging s)" and "entry_size (staging s) \<noteq> 0"
  obtains s' where "aesd_write_commit K (with_mutex True s) = Inr (with_mutex True s')"
    and "drv_inv (with_mutex False s')"
    and "drv_abs (with_mutex False s') = \<lparr>spec_log = lastn 10 (spec_log (drv_abs s) @ [spec_staged (drv_abs s)]), spec_staged = []\<rparr>"
    and "unowned (with_mutex False s') = unowned s"
proof -
  have abs: "drv_abs (with_mutex True s) = drv_abs s" and un: "unowned (with_mutex True s) = unowned s"
    by (simp_all add: drv_abs_def unowned_def owned_def)
  obtain m cb' where c: "aesd_write_commit K (with_mutex True s) = Inr (set_staging zero_entry
       ((with_mutex True s)\<lparr>aesd_device := (aesd_device (with_mutex True s))\<lparr>circular_buffer := cb'\<rparr>, kmem := m\<rparr>))"
    and d: "dev_safe (blocks m) cb' zero_entry"
    and l: "map (data_of (blocks m)) (contents cb') = lastn 10 (spec_log (drv_abs s) @ [spec_staged (drv_abs s)])"
    and u: "dom (blocks m) - set (blocks_of (contents cb' @ [zero_entry])) = unowned s"
    using write_commit [of K "with_mutex True s"] assms unfolding abs un by auto
  let ?s' = "set_staging zero_entry (s\<lparr>aesd_device := (aesd_device s)\<lparr>circular_buffer := cb'\<rparr>, kmem := m\<rparr>)"
  have "aesd_write_commit K (with_mutex True s) = Inr (with_mutex True ?s')"
    using c by (simp add: with_mutex_def set_staging_def)
  moreover have "drv_inv (with_mutex False ?s')"
    using d by (simp add: drv_inv_def drv_safe_def staging_wf_def dev_safe_def)
  moreover have "drv_abs (with_mutex False ?s') =
      \<lparr>spec_log = lastn 10 (spec_log (drv_abs s) @ [spec_staged (drv_abs s)]), spec_staged = []\<rparr>"
    using l by (simp add: drv_abs_def data_of_def)
  moreover have "unowned (with_mutex False ?s') = unowned s"
    using u by (simp add: unowned_def owned_def)
  ultimately show thesis by (rule that)
qed

lemma aesd_write_staged:
  assumes K: "kernel_ok K" and safe: "drv_safe s" and fd: "private_data filp = Some AESD_DEVICE"
    and bound: "unat count \<le> max_rw_count"
  obtains (fail) m where "aesd_write K filp buf count f_pos s =
        Inr (- ENOMEM, f_pos, with_mutex False (set_staging ((staging s)\<lparr>buffptr := NULL\<rparr>) (s\<lparr>kmem := m\<rparr>)))"
      and "blocks m = blocks (kmem s)"
    | (room) r m st' where "aesd_write K filp buf count f_pos s =
        (case find_index 10 (received buf count r) of
           None \<Rightarrow> Inr (count - r, f_pos + (count - r), with_mutex False (set_staging st' (s\<lparr>kmem := m\<rparr>)))
         | Some _ \<Rightarrow> bindE (aesd_write_commit K (with_mutex True (set_staging st' (s\<lparr>kmem := m\<rparr>))))
             (\<lambda>s4. bindE (mutex_unlock s4) (\<lambda>s5. Inr (count - r, f_pos + (count - r), s5))))"
      and "r \<le> count" and "unat count - unat r \<le> length buf"
      and "filled (blocks (kmem s)) (staging s) (received buf count r) (blocks m) st'"
proof -
  let ?B = "blocks (kmem s)" and ?st = "staging s" and ?s1 = "with_mutex True s"
  have st_safe: "staging_safe ?B ?st" and lock: "mutex_lock s = Inr ?s1"
    using safe by (simp_all add: drv_safe_def dev_safe_def)
  have "stage_outcome K count ?s1"
    using K st_safe bound by (intro write_stage) simp_all
  then consider (no) m where "aesd_write_stage K count ?s1 =
        Inr (None, with_mutex True (set_staging (?st\<lparr>buffptr := NULL\<rparr>) (s\<lparr>kmem := m\<rparr>)))" "blocks m = ?B"
    | (yes) m st' where "aesd_write_stage K count ?s1 =
        Inr (Some (entry_size ?st), with_mutex True (set_staging st' (s\<lparr>kmem := m\<rparr>)))"
        "staged_room ?B ?st count (blocks m) st'"
    unfolding stage_outcome_def by auto
  then show thesis
  proof cases
    case no
    then show thesis using fd lock by (intro fail [of m]) (simp_all add: aesd_write_def)
  next
    case (yes m st')
    obtain r m' where cp: "copy_from_user K (buffptr st') (entry_size ?st) buf count m = Inr (r, m')"
      and r: "r \<le> count" "unat count - unat r \<le> length buf"
      and fill: "filled ?B ?st (received buf count r) (blocks m') st'"
      and chr: "memchr (buffptr st') (unat (entry_size ?st)) 10 (unat count) m' =
           Inr (find_index 10 (received buf count r))"
      using fill_staged [OF K yes(2) write_size_bound [OF st_safe bound]] .
    have "unat r < 9223372036854775808"
      using r(1) bound by (simp add: word_le_nat_alt max_rw_count_def)
    then have "\<not> sint r < 0" by (simp add: sint_eq_int_unat)
    with fd lock yes(1) cp chr r fill show thesis
      by (intro room [of r st' m']) (simp_all add: aesd_write_def Let_def cong: option.case_cong)
  qed
qed

lemma aesd_write_outcome:
  assumes K: "kernel_ok K" and safe: "drv_safe s" and fd: "private_data filp = Some AESD_DEVICE"
    and bound: "unat count \<le> max_rw_count"
  obtains (nomem) s' where "aesd_write K filp buf count f_pos s = Inr (- ENOMEM, f_pos, s')"
      and "drv_safe s'" and "blocks (kmem s') = blocks (kmem s)"
      and "circular_buffer (aesd_device s') = circular_buffer (aesd_device s)"
      and "staging s' = (staging s)\<lparr>buffptr := NULL\<rparr>"
    | (written) r s' where "aesd_write K filp buf count f_pos s = Inr (count - r, f_pos + (count - r), s')"
      and "r \<le> count" and "unat count - unat r \<le> length buf"
      and "drv_inv s'" and "unowned s' = unowned s"
      and "staging_wf (blocks (kmem s)) (staging s) \<longrightarrow>
             drv_abs s' = spec_write (received buf count r) (drv_abs s)"
  using K safe fd bound
proof (cases rule: aesd_write_staged [where buf = buf and f_pos = f_pos])
  case (fail m)
  let ?s' = "with_mutex False (set_staging ((staging s)\<lparr>buffptr := NULL\<rparr>) (s\<lparr>kmem := m\<rparr>))"
  have "drv_safe ?s'"
    using safe fail(2) staging_size_bound [of "blocks (kmem s)" "staging s"]
    by (auto simp: drv_safe_def dev_safe_def staging_safe_def)
  with fail show thesis by (intro nomem [of ?s']) simp_all
next
  case (room r m st')
  let ?d = "received buf count r" and ?s2 = "set_staging st' (s\<lparr>kmem := m\<rparr>)"
  have dev: "dev_safe (blocks (kmem s)) (circular_buffer (aesd_device s)) (staging s)"
    using safe by (simp add: drv_safe_def)
  note f = filled_dev [OF dev room(4)]
  have un: "unowned ?s2 = unowned s" using f(5) by (simp add: unowned_def owned_def)
  show thesis
  proof (cases "10 \<in> set ?d")
    case False
    have "drv_inv (with_mutex False ?s2)" and "unowned (with_mutex False ?s2) = unowned s"
      using f(1,2) un by (simp_all add: drv_inv_def drv_safe_def unowned_def owned_def)
    moreover have "staging_wf (blocks (kmem s)) (staging s) \<longrightarrow>
        drv_abs (with_mutex False ?s2) = spec_write ?d (drv_abs s)"
      using f(3,4) False by (simp add: drv_abs_def spec_write_def)
    moreover have "find_index 10 ?d = None" using False by (simp add: find_index_None_iff)
    ultimately show thesis
      using room(1-3) by (intro written [of r "with_mutex False ?s2"]) simp_all
  next
    case True
    then obtain i where i: "find_index 10 ?d = Some i"
      using find_index_None_iff [of 10 ?d] by (cases "find_index 10 ?d") simp_all
    have "entry_size st' \<noteq> 0" using room(4) True by (auto simp: filled_def)
    then obtain s' where commit: "aesd_write_commit K (with_mutex True ?s2) = Inr (with_mutex True s')"
      and inv: "drv_inv (with_mutex False s')"
      and abs: "drv_abs (with_mutex False s') =
        \<lparr>spec_log = lastn 10 (spec_log (drv_abs ?s2) @ [spec_staged (drv_abs ?s2)]), spec_staged = []\<rparr>"
      and un': "unowned (with_mutex False s') = unowned ?s2"
      using write_commit_locked [OF K, of ?s2] f(1,2) by auto
    have "staging_wf (blocks (kmem s)) (staging s) \<longrightarrow>
        drv_abs (with_mutex False s') = spec_write ?d (drv_abs s)"
      using f(4) True unfolding abs by (simp add: drv_abs_def spec_write_def f(3))
    with room(1-3) inv un un' i commit show thesis
      by (intro written [of r "with_mutex False s'"]) simp_all
  qed
qed

section \<open>A read\<close>

lemma owns_bounds: "owns B e \<Longrightarrow> 0 < unat (entry_size e) \<and> unat (entry_size e) \<le> kmalloc_limit"
  by (elim ownsE) (simp flip: length_greater_0_conv)

lemma drv_total_bytes:
  assumes "dev_safe B cb st"
  shows "entry_sizes cb = map length (map (data_of B) (contents cb))"
    and "sum_list (entry_sizes cb) < 2 ^ 64"
proof -
  have own: "\<forall>e \<in> set (contents cb). owns B e"
    using assms by (simp add: dev_safe_def list_all_iff)
  then show "entry_sizes cb = map length (map (data_of B) (contents cb))"
    by (simp add: entry_sizes_def owns_size)
  have "sum_list (entry_sizes cb) \<le> length (entry_sizes cb) * kmalloc_limit"
    using own by (intro sum_list_le_length_times) (auto simp: entry_sizes_def dest: owns_bounds)
  also have "\<dots> \<le> 10 * kmalloc_limit"
    using assms ring_count_le(1) by (intro mult_right_mono) (auto simp: entry_sizes_def dev_safe_def)
  finally show "sum_list (entry_sizes cb) < 2 ^ 64"
    by (simp add: kmalloc_limit_def)
qed

text \<open>
  A read at end of data returns 0 and changes nothing. Otherwise it delivers the first bytes of
  the entry that holds the file position, at most \<open>count\<close> of them, and moves the position by as
  many bytes as it delivered.
\<close>

lemma aesd_read_outcome:
  assumes K: "kernel_ok K" and safe: "drv_safe s" and fd: "private_data filp = Some AESD_DEVICE"
  obtains (eof) "locate (map length (spec_log (drv_abs s))) (unat f_pos) = None"
      and "aesd_read K filp count f_pos s = Inr (0, [], f_pos, s)"
    | (data) k j n s' where "locate (map length (spec_log (drv_abs s))) (unat f_pos) = Some (k, j)"
      and "n \<le> min (unat count) (length (spec_log (drv_abs s) ! k))"
      and "copies_complete K \<longrightarrow> n = min (unat count) (length (spec_log (drv_abs s) ! k))"
      and "aesd_read K filp count f_pos s =
             Inr (of_nat n, take n (spec_log (drv_abs s) ! k), f_pos + of_nat n, s')"
      and "aesd_device s' = aesd_device s" and "blocks (kmem s') = blocks (kmem s)"
proof -
  let ?B = "blocks (kmem s)" and ?cb = "circular_buffer (aesd_device s)"
  have dev: "dev_safe ?B ?cb (staging s)" and lock: "mutex_lock s = Inr (with_mutex True s)"
    and same: "with_mutex False s = s"
    using safe by (simp_all add: drv_safe_def with_mutex_def)
  have sizes: "map length (spec_log (drv_abs s)) = entry_sizes ?cb"
    using drv_total_bytes(1) [OF dev] by (simp add: drv_abs_def)
  have find: "aesd_circular_buffer_find_entry_offset_for_fpos ?cb f_pos =
      map_option (\<lambda>(k, j). ((unat (out_offs ?cb) + k) mod 10, of_nat j))
        (locate (entry_sizes ?cb) (unat f_pos))"
    using dev drv_total_bytes(2) [OF dev] by (intro find_entry_locate) (simp_all add: dev_safe_def)
  show thesis
  proof (cases "locate (entry_sizes ?cb) (unat f_pos)")
    case None
    then have "aesd_read K filp count f_pos s = Inr (0, [], f_pos, s)"
      using fd lock find same by (simp add: aesd_read_def)
    with None sizes show thesis by (intro eof) simp_all
  next
    case (Some kj)
    obtain k j where kj: "locate (entry_sizes ?cb) (unat f_pos) = Some (k, j)"
      using Some by (cases kj) simp
    let ?e = "entry ?cb ! ((unat (out_offs ?cb) + k) mod 10)"
    have k: "k < ring_count ?cb" using locate_SomeD [OF kj] by (simp add: entry_sizes_def)
    then have e: "contents ?cb ! k = ?e" by (rule contents_nth)
    with k have "?e \<in> set (contents ?cb)" by (metis nth_mem ring_count_contents)
    then have "owns ?B ?e" using dev by (simp add: dev_safe_def list_all_iff)
    then obtain b bs where b: "buffptr ?e = Block b" "?B b = Some bs" "length bs = unat (entry_size ?e)"
      by (elim ownsE) simp
    have log: "spec_log (drv_abs s) ! k = bs"
      using k e b by (simp add: drv_abs_def data_of_def)
    let ?n = "min count (entry_size ?e)"
    have un: "unat ?n = min (unat count) (length bs)"
      by (simp add: b(3) min_def word_le_nat_alt)
    then obtain r m where cp: "copy_to_user K (Block b) ?n (kmem s) = Inr ((r, take (unat ?n - unat r) bs), m)"
      and r: "r \<le> ?n" and m: "blocks m = ?B"
      using copy_to_user_live [OF K b(2), of ?n] by auto
    let ?w = "unat ?n - unat r"
    have sub: "?n - r = of_nat ?w" using r by (simp add: word_le_nat_alt of_nat_diff)
    have "aesd_read K filp count f_pos s =
        Inr (of_nat ?w, take ?w bs, f_pos + of_nat ?w, with_mutex False (s\<lparr>kmem := m\<rparr>))"
      using fd lock find kj b cp sub by (simp add: aesd_read_def Let_def)
    moreover have "aesd_device (with_mutex False (s\<lparr>kmem := m\<rparr>)) = aesd_device s"
      using same by (metis driver.select_convs(2) driver.surjective driver.update_convs(1) with_mutex_simps(5))
    moreover have "?w \<le> min (unat count) (length bs)" unfolding un by (rule diff_le_self)
    moreover have "copies_complete K \<longrightarrow> ?w = min (unat count) (length bs)"
    proof
      assume "copies_complete K"
      with cp have "r = 0" unfolding copies_complete_def by blast
      then show "?w = min (unat count) (length bs)" by (simp add: un)
    qed
    ultimately show thesis
      using kj sizes log m by (intro data [of k j ?w "with_mutex False (s\<lparr>kmem := m\<rparr>)"]) simp_all
  qed
qed

section \<open>Unloading\<close>

lemma foldE_free:
  assumes K: "kernel_ok K"
    and "list_all (\<lambda>e. owns (blocks m) e \<or> block_of e = []) es" and "distinct (blocks_of es)"
  shows "\<exists>m'. foldE (free_entry K) es m = Inr m' \<and> blocks m' = drop_blocks (blocks_of es) (blocks m)"
  using assms(2,3)
proof (induction es arbitrary: m)
  case Nil
  then show ?case by simp
next
  case (Cons e es)
  obtain m1 where free: "free_entry K e m = Inr m1" and m1: "blocks m1 = drop_blocks (block_of e) (blocks m)"
  proof (cases "buffptr e")
    case NULL
    then show thesis by (intro that [of m]) (simp_all add: free_entry_def)
  next
    case ZERO_SIZE_PTR
    obtain m1 where "kfree K ZERO_SIZE_PTR m = Inr m1" "blocks m1 = blocks m"
      by (rule kfree_no_block [OF K, of ZERO_SIZE_PTR]) simp_all
    with ZERO_SIZE_PTR show thesis by (intro that [of m1]) (simp_all add: free_entry_def)
  next
    case (Block b)
    with Cons.prems obtain bs where "blocks m b = Some bs" by (auto elim: ownsE)
    then obtain m1 where "kfree K (Block b) m = Inr m1" "blocks m1 = (blocks m)(b := None)"
      by (rule kfree_live [OF K])
    with Block show thesis by (intro that [of m1]) (simp_all add: free_entry_def)
  qed
  have "list_all (\<lambda>e. owns (blocks m1) e \<or> block_of e = []) es"
    unfolding list_all_iff
  proof
    fix e' assume "e' \<in> set es"
    moreover from this Cons.prems have "set (block_of e) \<inter> set (block_of e') = {}"
      by (auto simp: set_blocks_of)
    ultimately show "owns (blocks m1) e' \<or> block_of e' = []"
      using Cons.prems by (simp add: m1 frame list_all_iff)
  qed
  with Cons obtain m' where "foldE (free_entry K) es m1 = Inr m'"
    "blocks m' = drop_blocks (blocks_of es) (blocks m1)" by auto
  with free m1 show ?case by (auto simp: drop_blocks_def)
qed

lemma blocks_of_zero: "list_all (\<lambda>e. e = zero_entry) es \<Longrightarrow> blocks_of es = []"
  by (induction es) simp_all

lemma dev_safe_slots:
  assumes "dev_safe B cb st"
  shows "length (entry cb) = 10"
    and "list_all (\<lambda>e. owns B e \<or> block_of e = []) (entry cb @ [st])"
    and "distinct (blocks_of (entry cb @ [st]))"
    and "set (blocks_of (entry cb @ [st])) = set (blocks_of (contents cb @ [st]))"
proof -
  have inv: "ring_inv cb" and own: "list_all (owns B) (contents cb)" and safe: "staging_safe B st"
    and dist: "distinct (blocks_of (contents cb @ [st]))"
    using assms by (simp_all add: dev_safe_def)
  show len: "length (entry cb) = 10" using inv by (simp add: ring_inv_def)
  have st: "owns B st \<or> block_of st = []"
    using safe by (auto simp: staging_safe_def split: ptr.splits)
  have split: "entry cb = occupied cb @ vacant cb"
    by (simp add: occupied_def vacant_def)
  have vac: "list_all (\<lambda>e. e = zero_entry) (vacant cb)" using inv by (simp add: ring_inv_def)
  have own': "list_all (owns B) (occupied cb)"
    using own contents_occupied(1) [OF inv] by (simp add: list_all_iff)
  show "list_all (\<lambda>e. owns B e \<or> block_of e = []) (entry cb @ [st])"
    using own' vac st unfolding split by (auto simp: list_all_iff)
  have blocks: "blocks_of (entry cb) = blocks_of (occupied cb)"
    unfolding split by (simp add: blocks_of_zero [OF vac])
  show "set (blocks_of (entry cb @ [st])) = set (blocks_of (contents cb @ [st]))"
    using contents_occupied(1) [OF inv] by (simp add: blocks set_blocks_of)
  show "distinct (blocks_of (entry cb @ [st]))"
  proof (cases "full cb")
    case True
    then have "contents cb = drop (unat (out_offs cb)) (entry cb) @ take (unat (out_offs cb)) (entry cb)"
      using inv len contents_full [OF inv True]
      by (simp add: rotate_drop_take ring_inv_def)
    then have c: "blocks_of (contents cb) =
        blocks_of (drop (unat (out_offs cb)) (entry cb)) @ blocks_of (take (unat (out_offs cb)) (entry cb))"
      by simp
    have "blocks_of (entry cb) =
        blocks_of (take (unat (out_offs cb)) (entry cb)) @ blocks_of (drop (unat (out_offs cb)) (entry cb))"
      by (simp flip: blocks_of_simps(3))
    with dist c show ?thesis by auto
  next
    case False
    then show ?thesis
      using dist contents_not_full [OF inv False] by (simp add: blocks occupied_def)
  qed
qed

lemma cleanup_outcome:
  assumes K: "kernel_ok K" and safe: "drv_safe s"
  obtains m where "aesd_cleanup_module K s = Inr (s\<lparr>cdev_live := False, kmem := m,
      chrdev_regions := remove1 (MKDEV (aesd_major s) (aesd_minor s)) (chrdev_regions s)\<rparr>)"
    and "dom (blocks m) = unowned s"
proof -
  let ?cb = "circular_buffer (aesd_device s)"
  have dev: "dev_safe (blocks (kmem s)) ?cb (staging s)" using safe by (simp add: drv_safe_def)
  note slots = dev_safe_slots [OF dev]
  obtain m where m: "foldE (free_entry K) (entry ?cb @ [staging s]) (kmem s) = Inr m"
    and B: "blocks m = drop_blocks (blocks_of (entry ?cb @ [staging s])) (blocks (kmem s))"
    using foldE_free [OF K slots(2,3)] by blast
  have "AESD_CIRCULAR_BUFFER_FOREACH (free_entry K) ?cb 0 (kmem s) = foldE (free_entry K) (entry ?cb) (kmem s)"
    using foreach_from [OF slots(1), of "free_entry K" 0] by simp
  moreover obtain m1 where "foldE (free_entry K) (entry ?cb) (kmem s) = Inr m1"
    and "free_entry K (staging s) m1 = Inr m"
    using m by (auto simp: foldE_append bindE_Inr_iff)
  ultimately have "aesd_cleanup_module K s = Inr (s\<lparr>cdev_live := False, kmem := m,
      chrdev_regions := remove1 (MKDEV (aesd_major s) (aesd_minor s)) (chrdev_regions s)\<rparr>)"
    by (simp add: aesd_cleanup_module_def Let_def)
  moreover have "dom (blocks m) = unowned s"
    unfolding unowned_def owned_def slots(4) [symmetric] B
    by (auto simp: drop_blocks_def split: if_splits)
  ultimately show thesis by (rule that)
qed

section \<open>Concrete states\<close>

text \<open>
  A freshly loaded module over the reference kernel, with a list of allocation failures to come,
  and a file opened on the device.
\<close>

definition ex_driver :: "bool list \<Rightarrow> ref_env driver" where
  "ex_driver fails = \<lparr>kmem = \<lparr>blocks = Map.empty, kenv = (0, fails)\<rparr>, aesd_device = zero_device,
     aesd_major = 240, aesd_minor = 0, chrdev_regions = [MKDEV 240 0], cdev_live = True\<rparr>"

definition ex_file :: struct_file where
  "ex_file = snd (aesd_open \<lparr>private_data = None\<rparr>)"

lemma ex_file_open [simp]: "private_data ex_file = Some AESD_DEVICE"
  by (simp add: ex_file_def aesd_open_def)

lemma zero_device_safe:
  "dev_safe B (circular_buffer zero_device) (buffer_entry_staging zero_device)"
  "contents (circular_buffer zero_device) = []"
  by (simp_all add: zero_device_def dev_safe_def ring.invar_empty ring.log_empty staging_safe_def)

lemma fresh_driver:
  assumes "aesd_device s = zero_device"
  shows "drv_inv s" and "drv_abs s = \<lparr>spec_log = [], spec_staged = []\<rparr>" and "owned s = {}"
proof -
  have z: "staging s = zero_entry" "\<not> device_mutex (aesd_device s)"
    by (simp_all add: assms zero_device_def)
  show "drv_inv s"
    using zero_device_safe(1) [of "blocks (kmem s)"] z
    by (simp add: drv_inv_def drv_safe_def staging_wf_def dev_safe_def assms zero_device_def)
  show "drv_abs s = \<lparr>spec_log = [], spec_staged = []\<rparr>" and "owned s = {}"
    using z by (simp_all add: drv_abs_def owned_def zero_device_safe(2) assms data_of_def)
qed

lemma ex_driver_inv: "drv_inv (ex_driver fails)" "drv_safe (ex_driver fails)"
  "drv_abs (ex_driver fails) = \<lparr>spec_log = [], spec_staged = []\<rparr>"
  using fresh_driver [of "ex_driver fails"] by (simp_all add: ex_driver_def drv_inv_def)

lemmas kernel_eval = ref_kernel_def ref_alloc_def ref_krealloc_def ref_kfree_def
  ref_copy_from_user_def ref_copy_to_user_def kmalloc_limit_def mem_read_def memchr_def Let_def

lemmas ring_eval = word_le_nat_alt aesd_circular_buffer_add_entry_def next_idx_def
  aesd_circular_buffer_init_def contents_def ring_count_def

lemmas driver_eval = aesd_write_def aesd_write_stage_def aesd_write_commit_def aesd_read_def
  mutex_lock_def mutex_unlock_def set_staging_def ex_driver_def zero_device_def drv_abs_def data_of_def

section \<open>Properties of writes\<close>

text \<open>
  Property C4. A write never faults and refines the abstract device. Either memory ran out: the
  call returns -ENOMEM, the position and the complete lines are as before. Or the call reports the
  bytes it received and moves the position by that number, and the device state is the one of the
  abstract write of those bytes (bytes the kernel could not copy are stored as zeros).
\<close>

theorem aesd_write_refines:
  assumes "kernel_ok K" and "drv_inv s" and "private_data filp = Some AESD_DEVICE"
    and "unat count \<le> max_rw_count"
  shows "\<exists>ret f_pos' s'. aesd_write K filp buf count f_pos s = Inr (ret, f_pos', s') \<and>
    (ret = - ENOMEM \<and> f_pos' = f_pos \<and> drv_safe s' \<and> spec_log (drv_abs s') = spec_log (drv_abs s) \<or>
     (\<exists>r \<le> count. ret = count - r \<and> f_pos' = f_pos + ret \<and> drv_inv s' \<and>
        drv_abs s' = spec_write (received buf count r) (drv_abs s)))"
proof -
  have safe: "drv_safe s" and wf: "staging_wf (blocks (kmem s)) (staging s)"
    using assms(2) by (simp_all add: drv_inv_def)
  from assms(1) safe assms(3,4) show ?thesis
  proof (cases rule: aesd_write_outcome [where buf = buf and f_pos = f_pos])
    case (nomem s')
    then show ?thesis by (simp add: drv_abs_def)
  next
    case (written r s')
    with wf show ?thesis by auto
  qed
qed

theorem aesd_write_refines_witness:
  "\<exists>ret f_pos' s'. aesd_write ref_kernel ex_file [104, 105, 10] 3 0 (ex_driver []) = Inr (ret, f_pos', s') \<and>
    (ret = - ENOMEM \<or> (\<exists>r \<le> 3. drv_abs s' =
       spec_write (received [104, 105, 10] 3 r) \<lparr>spec_log = [], spec_staged = []\<rparr>))"
proof -
  have "unat (3 :: size_t) \<le> max_rw_count" by (simp add: max_rw_count_def)
  from aesd_write_refines [OF ref_kernel_ok ex_driver_inv(1) ex_file_open this]
  show ?thesis unfolding ex_driver_inv(3) by blast
qed

text \<open>
  Property C7. A write that succeeds leaks nothing and touches no memory of others: the live
  blocks that the driver does not own are the same before and after.
\<close>

theorem aesd_write_no_leak:
  assumes "kernel_ok K" and "drv_safe s" and "private_data filp = Some AESD_DEVICE"
    and "unat count \<le> max_rw_count"
    and "aesd_write K filp buf count f_pos s = Inr (ret, f_pos', s')" and "ret \<noteq> - ENOMEM"
  shows "unowned s' = unowned s"
  using assms(1-4)
proof (cases rule: aesd_write_outcome [where buf = buf and f_pos = f_pos])
  case (nomem s'')
  with assms(5,6) show ?thesis by simp
next
  case (written r s'')
  with assms(5) show ?thesis by simp
qed

theorem aesd_write_no_leak_witness:
  "\<exists>ret f_pos' s'. aesd_write ref_kernel ex_file [104, 10] 2 0 (ex_driver []) = Inr (ret, f_pos', s') \<and>
     unowned s' = unowned (ex_driver [])"
proof -
  have "\<exists>s'. aesd_write ref_kernel ex_file [104, 10] 2 0 (ex_driver []) = Inr (2, 2, s')"
    by (simp add: kernel_eval ring_eval driver_eval)
  then obtain s' where w: "aesd_write ref_kernel ex_file [104, 10] 2 0 (ex_driver []) = Inr (2, 2, s')" ..
  have "unat (2 :: size_t) \<le> max_rw_count" and "2 \<noteq> - ENOMEM"
    by (simp_all add: max_rw_count_def ENOMEM_def)
  from aesd_write_no_leak [OF ref_kernel_ok ex_driver_inv(2) ex_file_open this(1) w this(2)] w
  show ?thesis by blast
qed

text \<open>Several writes through one file, each from its own buffer; the return values in order.\<close>

primrec write_all ::
  "'e kernel_api \<Rightarrow> struct_file \<Rightarrow> byte list list \<Rightarrow> 'e driver \<Rightarrow> fault + ssize_t list \<times> 'e driver" where
  "write_all K filp [] s = Inr ([], s)"
| "write_all K filp (d # ds) s =
     bindE (aesd_write K filp d (of_nat (length d)) 0 s) (\<lambda>(ret, f_pos, s').
     bindE (write_all K filp ds s') (\<lambda>(rets, s''). Inr (ret # rets, s'')))"

lemma count_not_enomem: "n \<le> max_rw_count \<Longrightarrow> (of_nat n :: size_t) \<noteq> - ENOMEM"
  by (auto simp: word_unat_eq_iff unat_of_nat ENOMEM_def max_rw_count_def)

lemma received_all: "received d (of_nat (length d)) 0 = d" if "length d \<le> max_rw_count"
  using that by (simp add: received_def unat_of_nat max_rw_count_def)

lemma write_all_outcome:
  assumes K: "kernel_ok K" and fd: "private_data filp = Some AESD_DEVICE"
    and "list_all (\<lambda>d. length d \<le> max_rw_count) ds" and "drv_safe s"
  shows "\<exists>rets s'. write_all K filp ds s = Inr (rets, s') \<and> drv_safe s' \<and>
    (drv_inv s \<longrightarrow> rets = map (\<lambda>d. of_nat (length d)) ds \<longrightarrow>
       drv_inv s' \<and> drv_abs s' = fold spec_write ds (drv_abs s))"
  using assms(3,4)
proof (induction ds arbitrary: s)
  case Nil
  then show ?case by simp
next
  case (Cons d ds)
  let ?n = "of_nat (length d) :: size_t"
  have len: "length d \<le> max_rw_count" using Cons.prems by simp
  then have n: "unat ?n \<le> max_rw_count"
    by (simp add: unat_of_nat max_rw_count_def)
  obtain ret fp s1 where w: "aesd_write K filp d ?n 0 s = Inr (ret, fp, s1)" and s1: "drv_safe s1"
    and ok: "drv_inv s \<longrightarrow> ret = ?n \<longrightarrow> drv_inv s1 \<and> drv_abs s1 = spec_write d (drv_abs s)"
    using K Cons.prems(2) fd n
  proof (cases rule: aesd_write_outcome [where buf = d and f_pos = 0])
    case (nomem s1)
    with count_not_enomem [OF len] show thesis by (intro that [of "- ENOMEM" 0 s1]) auto
  next
    case (written r s1)
    then show thesis
      using received_all [OF len] by (intro that [of "?n - r" "0 + (?n - r)" s1]) (auto simp: drv_inv_def)
  qed
  from Cons.IH [OF _ s1] Cons.prems obtain rets s' where
    ih: "write_all K filp ds s1 = Inr (rets, s')" "drv_safe s'"
      "drv_inv s1 \<longrightarrow> rets = map (\<lambda>d. of_nat (length d)) ds \<longrightarrow>
         drv_inv s' \<and> drv_abs s' = fold spec_write ds (drv_abs s1)"
    by auto
  have "write_all K filp (d # ds) s = Inr (ret # rets, s')" using w ih(1) by simp
  with ih(2,3) ok show ?case by auto
qed


text \<open>
  Bytes that cannot be copied from user space stay in the staged line as zeros
  although the call reports fewer bytes: a write of three bytes of which one is readable returns 1
  and stages three.
\<close>

lemma partial_copy_pads_line:
  "\<exists>s'. aesd_write ref_kernel ex_file [97] 3 0 (ex_driver []) = Inr (1, 1, s') \<and>
    spec_staged (drv_abs s') = [97, 0, 0]"
  by (simp add: kernel_eval ring_eval driver_eval)

section \<open>Properties of reads\<close>

text \<open>
  Property C9. A read never faults and changes neither the stored data nor the device. At or
  past the end of the data it returns 0. Otherwise it delivers a prefix of the entry that contains
  the position, of at most \<open>count\<close> bytes, and moves the position by the number of bytes
  delivered.
\<close>

theorem aesd_read_delivers_entry_prefix:
  assumes "kernel_ok K" and "drv_safe s" and "private_data filp = Some AESD_DEVICE"
  shows "\<exists>out s'. aesd_read K filp count f_pos s =
      Inr (of_nat (length out), out, f_pos + of_nat (length out), s') \<and>
    drv_safe s' \<and> drv_abs s' = drv_abs s \<and> length out \<le> unat count \<and>
    (case locate (map length (spec_log (drv_abs s))) (unat f_pos) of
       None \<Rightarrow> out = [] \<and> length (concat (spec_log (drv_abs s))) \<le> unat f_pos
     | Some (k, j) \<Rightarrow> \<exists>rest. spec_log (drv_abs s) ! k = out @ rest)"
  using assms
proof (cases rule: aesd_read_outcome [where count = count and f_pos = f_pos])
  case eof
  then have "length (concat (spec_log (drv_abs s))) \<le> unat f_pos"
    using locate_None_iff by (simp add: length_concat)
  with eof assms(2) show ?thesis by simp
next
  case (data k j n s')
  let ?e = "spec_log (drv_abs s) ! k"
  have "drv_abs s' = drv_abs s" and "drv_safe s'"
    using data(5,6) assms(2) by (simp_all add: drv_abs_def drv_safe_def)
  moreover have "\<exists>rest. ?e = take n ?e @ rest" by (rule exI [of _ "drop n ?e"]) simp
  ultimately show ?thesis
    using data(1,2,4) by (intro exI [of _ "take n ?e"] exI [of _ s']) auto
qed

theorem aesd_read_delivers_entry_prefix_witness:
  "\<exists>out s'. aesd_read ref_kernel ex_file 8 0 (ex_driver []) =
     Inr (of_nat (length out), out, 0 + of_nat (length out), s') \<and> out = []"
  using aesd_read_delivers_entry_prefix [OF ref_kernel_ok ex_driver_inv(2) ex_file_open, of 8 0 "[]"]
  by (auto simp: ex_driver_inv(3))


lemma ex_line_stored:
  obtains s where "write_all ref_kernel ex_file [[97, 98, 10], [99, 10]] (ex_driver []) = Inr ([3, 2], s)"
    and "drv_safe s" and "spec_log (drv_abs s) = [[97, 98, 10], [99, 10]]"
proof -
  let ?ds = "[[97, 98, 10], [99, 10 :: byte]]"
  obtain rets s where w: "write_all ref_kernel ex_file ?ds (ex_driver []) = Inr (rets, s)" and s: "drv_safe s"
    and abs: "rets = map (\<lambda>d. of_nat (length d)) ?ds \<longrightarrow> drv_abs s = fold spec_write ?ds (drv_abs (ex_driver []))"
    using write_all_outcome [OF ref_kernel_ok ex_file_open _ ex_driver_inv(2), of ?ds "[]"] ex_driver_inv(1)
    by (auto simp: max_rw_count_def)
  have rets: "rets = [3, 2]"
    using w by (auto simp: kernel_eval ring_eval driver_eval)
  with abs have "spec_log (drv_abs s) = ?ds"
    by (simp add: ex_driver_inv(3) spec_write_def)
  with w s show thesis unfolding rets by (rule that)
qed



section \<open>Properties of loading and unloading\<close>

lemma init_module_ok:
  assumes "0 \<le> region_result"
  obtains s' where "aesd_init_module region_result dev 0 s = (0, s')"
    and "drv_inv s'" and "drv_abs s' = \<lparr>spec_log = [], spec_staged = []\<rparr>" and "owned s' = {}"
    and "chrdev_regions s' = dev # chrdev_regions s" and "cdev_live s'"
    and "aesd_major s' = MAJOR dev" and "aesd_minor s' = aesd_minor s"
proof -
  let ?s' = "snd (aesd_init_module region_result dev 0 s)"
  have "aesd_device ?s' = zero_device"
    using assms by (simp add: aesd_init_module_def aesd_setup_cdev_def Let_def zero_device_def
        aesd_circular_buffer_init_def)
  from fresh_driver [OF this] assms show thesis
    by (intro that [of ?s']) (simp_all add: aesd_init_module_def aesd_setup_cdev_def Let_def)
qed

lemma init_module_fails:
  assumes "region_result < 0 \<or> cdev_add_result \<noteq> 0"
  obtains result s' where "aesd_init_module region_result dev cdev_add_result s = (result, s')"
    and "result \<noteq> 0" and "chrdev_regions s' = chrdev_regions s"
  using assms
  by (cases "aesd_init_module region_result dev cdev_add_result s")
    (auto simp: aesd_init_module_def aesd_setup_cdev_def Let_def split: if_splits)

text \<open>
  Property C12. A load that succeeds leaves an empty, unlocked device that owns no memory, and one
  registered device number; a load that fails at either step leaves the registered device numbers
  as they were. It succeeds when both kernel calls do.
\<close>

theorem aesd_init_module_result:
  "case aesd_init_module region_result dev cdev_add_result s of (result, s') \<Rightarrow>
     if result = 0
     then drv_inv s' \<and> drv_abs s' = \<lparr>spec_log = [], spec_staged = []\<rparr> \<and> owned s' = {} \<and>
       chrdev_regions s' = dev # chrdev_regions s \<and> cdev_live s' \<and> 0 \<le> region_result \<and> cdev_add_result = 0
     else chrdev_regions s' = chrdev_regions s \<and> \<not> (0 \<le> region_result \<and> cdev_add_result = 0)"
proof (cases "region_result < 0 \<or> cdev_add_result \<noteq> 0")
  case True
  then show ?thesis by (rule init_module_fails [of region_result cdev_add_result dev s]) (use True in auto)
next
  case False
  then have "0 \<le> region_result" by simp
  from this obtain s' where "aesd_init_module region_result dev 0 s = (0, s')"
    and "drv_inv s'" and "drv_abs s' = \<lparr>spec_log = [], spec_staged = []\<rparr>" and "owned s' = {}"
    and "chrdev_regions s' = dev # chrdev_regions s" and "cdev_live s'"
    by (rule init_module_ok)
  with False show ?thesis by simp
qed

text \<open>
  Property C13. Unloading gives back the device number that loading registered: the number
  rebuilt from the stored major and minor is the one the kernel handed out.
\<close>

theorem module_device_number_roundtrip:
  assumes "take_bit 20 dev = 0" and "aesd_minor s = 0" and "kernel_ok K"
    and "aesd_init_module region_result dev 0 s = (0, s')"
  shows "\<exists>s''. aesd_cleanup_module K s' = Inr s'' \<and> chrdev_regions s'' = chrdev_regions s"
proof -
  have "0 \<le> region_result"
    using init_module_fails [of region_result 0 dev s] assms(4) by fastforce
  then have s': "drv_inv s'" "chrdev_regions s' = dev # chrdev_regions s"
      "aesd_major s' = MAJOR dev" "aesd_minor s' = 0"
    using assms(2,4) by (auto elim: init_module_ok [of region_result dev s])
  then have "MKDEV (aesd_major s') (aesd_minor s') = dev"
    using bits_ident [of 20 dev] assms(1) by (simp add: MKDEV_def MAJOR_def)
  moreover have "drv_safe s'" using s'(1) by (simp add: drv_inv_def)
  then obtain m where "aesd_cleanup_module K s' = Inr (s'\<lparr>cdev_live := False, kmem := m,
      chrdev_regions := remove1 (MKDEV (aesd_major s') (aesd_minor s')) (chrdev_regions s')\<rparr>)"
    by (rule cleanup_outcome [OF assms(3)])
  ultimately show ?thesis using s'(2) by simp
qed

theorem module_device_number_roundtrip_witness:
  "\<exists>s' s''. aesd_init_module 0 0x0F000000 0 (ex_driver []) = (0, s') \<and>
     aesd_cleanup_module ref_kernel s' = Inr s'' \<and> chrdev_regions s'' = chrdev_regions (ex_driver [])"
proof -
  obtain s' where s': "aesd_init_module 0 0x0F000000 0 (ex_driver []) = (0, s')"
    by (rule init_module_ok [of 0]) simp_all
  have "take_bit 20 (0x0F000000 :: dev_t) = 0" and "aesd_minor (ex_driver []) = 0"
    by (simp_all add: ex_driver_def)
  from module_device_number_roundtrip [OF this ref_kernel_ok s'] s' show ?thesis by blast
qed

end
