(* ===== verification/Server_Contract.thy ===== *)
theory Server_Contract
  imports Driver_Spec Worker
begin

text \<open>
  What the server relies on: a view of the state of the system (the device behind the result
  file, open descriptors, sockets, allocated buffers, the mutex) and, as locales, the laws of the
  calls that read and change it. The effect of the server's own operations on the view is proved
  once, inside the locales.
\<close>

section \<open>The view\<close>

text \<open>
  \<open>v_pos\<close> holds the descriptors open on the result file with their positions, \<open>v_inbox\<close> the
  segments that successive \<^verbatim>\<open>recv\<close> calls on a socket deliver, \<open>v_outbox\<close> what was sent on it.
\<close>

record view =
  v_dev :: device_spec
  v_pos :: "int \<rightharpoonup> nat"
  v_inbox :: "int \<Rightarrow> byte list list"
  v_outbox :: "int \<Rightarrow> byte list"
  v_sockets :: "int set"
  v_allocs :: "nat set"
  v_locked :: bool

abbreviation v_log :: "view \<Rightarrow> byte list list" where
  "v_log v \<equiv> spec_log (v_dev v)"

text \<open>A call that changes the view by \<open>f\<close> and keeps both invariants.\<close>

definition moves ::
  "('s \<Rightarrow> view) \<Rightarrow> ('s \<Rightarrow> bool) \<Rightarrow> ('s \<Rightarrow> bool) \<Rightarrow> (view \<Rightarrow> view) \<Rightarrow> 's \<Rightarrow> 's \<Rightarrow> bool" where
  "moves vw safe good f w w' \<longleftrightarrow> vw w' = f (vw w) \<and> safe w' \<and> (good w \<longrightarrow> good w')"

lemma movesD:
  assumes "moves vw safe good f w w'"
  shows "vw w' = f (vw w)" and "safe w'" and "good w \<Longrightarrow> good w'"
  using assms by (simp_all add: moves_def)

text \<open>The line a read at the start of the \<open>k\<close>-th line meets; none past the last.\<close>

definition nth_line :: "byte list list \<Rightarrow> nat \<Rightarrow> byte list" where
  "nth_line L k = (if k < length L then L ! k else [])"

section \<open>Contracts\<close>

text \<open>
  The result file. \<open>safe\<close> holds in every state; \<open>good\<close> is lost when a write fails. A write that
  reports all of its bytes acts as the abstract write; a read from the start of a stored line
  returns that line, as far as it fits.
\<close>

locale device_file =
  fixes S :: "'w posix" and path :: string
    and vw :: "'w globals \<Rightarrow> view" and safe good :: "'w globals \<Rightarrow> bool"
  assumes open_law: "safe w \<Longrightarrow> \<exists>fd w'. sys_open S path flags mode w = returns (fd, w') \<and>
      v_pos (vw w) fd = None \<and> moves vw safe good (\<lambda>v. v\<lparr>v_pos := (v_pos v)(fd \<mapsto> 0)\<rparr>) w w'"
    and write_law: "safe w \<Longrightarrow> v_pos (vw w) fd = Some p \<Longrightarrow> length d \<le> max_rw_count \<Longrightarrow>
      \<exists>r p' a w'. sys_write S fd d w = returns (r, w') \<and> safe w' \<and>
        vw w' = (vw w)\<lparr>v_dev := a, v_pos := (v_pos (vw w))(fd \<mapsto> p')\<rparr> \<and>
        (good w \<longrightarrow> r = of_nat (length d) \<longrightarrow> good w' \<and> a = spec_write d (v_dev (vw w)))"
    and read_law: "safe w \<Longrightarrow> v_pos (vw w) fd = Some (length (concat (take k (v_log (vw w))))) \<Longrightarrow>
      k \<le> length (v_log (vw w)) \<Longrightarrow> unat n \<le> max_rw_count \<Longrightarrow>
      out = (if k < length (v_log (vw w)) then take (unat n) (v_log (vw w) ! k) else []) \<Longrightarrow>
      \<exists>w'. sys_read S fd n w = returns ((of_nat (length out), out), w') \<and>
        moves vw safe good
          (\<lambda>v. v\<lparr>v_pos := (v_pos v)(fd \<mapsto> length (concat (take k (v_log v))) + length out)\<rparr>) w w'"
    and close_law: "safe w \<Longrightarrow> v_pos (vw w) fd = Some p \<Longrightarrow>
      \<exists>w'. sys_close S fd w = returns (0, w') \<and>
        moves vw safe good (\<lambda>v. v\<lparr>v_pos := (v_pos v)(fd := None)\<rparr>) w w'"
    and nonempty_lines: "safe w \<Longrightarrow> [] \<notin> set (v_log (vw w))"
begin

text \<open>
  Appending never faults. When it reports success, the device has received the bytes and the
  descriptor it opened is closed again.
\<close>

lemma append_to_file_law:
  assumes "safe w" and "unat n \<le> length buf" and "unat n \<le> max_rw_count"
  shows "\<exists>r a ps w'. append_to_file S path buf n w = returns (r, w') \<and> safe w' \<and> (r = 0 \<or> r = - 1) \<and>
    vw w' = (vw w)\<lparr>v_dev := a, v_pos := ps\<rparr> \<and>
    (r = 0 \<longrightarrow> good w \<longrightarrow> good w' \<and> a = spec_write (take (unat n) buf) (v_dev (vw w)) \<and> ps = v_pos (vw w))"
proof -
  let ?d = "take (unat n) buf"
  obtain fd w1 where op: "sys_open S path [O_WRONLY, O_APPEND, O_CREAT] 420 w = returns (fd, w1)"
    and fresh: "v_pos (vw w) fd = None"
    and m1: "moves vw safe good (\<lambda>v. v\<lparr>v_pos := (v_pos v)(fd \<mapsto> 0)\<rparr>) w w1"
    using open_law [OF assms(1)] by blast
  note v1 = movesD [OF m1]
  have len: "length ?d = unat n" "length ?d \<le> max_rw_count" using assms(2,3) by simp_all
  have "v_pos (vw w1) fd = Some 0" by (simp add: v1(1))
  from write_law [OF v1(2) this len(2)] obtain r p' a w2 where
    wr: "sys_write S fd ?d w1 = returns (r, w2)" and s2: "safe w2"
    and v2: "vw w2 = (vw w)\<lparr>v_dev := a, v_pos := (v_pos (vw w))(fd \<mapsto> p')\<rparr>"
    and g2: "good w1 \<longrightarrow> r = of_nat (length ?d) \<longrightarrow> good w2 \<and> a = spec_write ?d (v_dev (vw w))"
    unfolding v1(1) by auto
  have n: "of_nat (length ?d) = n" using len(1) by simp
  have app: "append_to_file S path buf n w =
      (if r = n \<and> r \<noteq> - 1 then bindP (sys_close S fd) (\<lambda>r. if r = - 1 then retP (- 1) else retP 0) w2
       else returns (- 1, w2))"
    using assms(2) by (simp add: append_to_file_def bindP_def op buffer_bytes_def wr)
  show ?thesis
  proof (cases "r = n \<and> r \<noteq> - 1")
    case False
    then show ?thesis unfolding app using s2 v2 by auto
  next
    case True
    have "v_pos (vw w2) fd = Some p'" by (simp add: v2)
    then obtain w3 where cl: "sys_close S fd w2 = returns (0, w3)"
      and m3: "moves vw safe good (\<lambda>v. v\<lparr>v_pos := (v_pos v)(fd := None)\<rparr>) w2 w3"
      using close_law [OF s2] by blast
    have "append_to_file S path buf n w = returns (0, w3)"
      unfolding app using True by (auto simp: bindP_def cl)
    moreover have "(v_pos (vw w))(fd := None) = v_pos (vw w)" using fresh by auto
    then have "vw w3 = (vw w)\<lparr>v_dev := a, v_pos := v_pos (vw w)\<rparr>"
      using movesD(1) [OF m3] v2 by simp
    ultimately show ?thesis
      using movesD(2,3) [OF m3] g2 v1(3) True n
      by (intro exI [of _ 0] exI [of _ a] exI [of _ "v_pos (vw w)"] exI [of _ w3]) auto
  qed
qed

end

text \<open>
  Sockets, buffers and the mutex. A send may fail or send a part; the mutex is a variable of the
  process.
\<close>

locale client_sockets =
  fixes S :: "'w posix" and vw :: "'w globals \<Rightarrow> view" and safe good :: "'w globals \<Rightarrow> bool"
  assumes recv_law: "safe w \<Longrightarrow> fd \<in> v_sockets (vw w) \<Longrightarrow> v_inbox (vw w) fd = c # cs \<Longrightarrow> length c \<le> unat n \<Longrightarrow>
      \<exists>w'. sys_recv S fd n w = returns ((of_nat (length c), c), w') \<and>
        moves vw safe good (\<lambda>v. v\<lparr>v_inbox := (v_inbox v)(fd := cs)\<rparr>) w w'"
    and send_law: "safe w \<Longrightarrow> fd \<in> v_sockets (vw w) \<Longrightarrow>
      \<exists>r s w'. sys_send S fd d w = returns (r, w') \<and> (r = of_nat (length d) \<longrightarrow> s = d) \<and>
        moves vw safe good (\<lambda>v. v\<lparr>v_outbox := (v_outbox v)(fd := v_outbox v fd @ s)\<rparr>) w w'"
    and close_socket_law: "safe w \<Longrightarrow> fd \<in> v_sockets (vw w) \<Longrightarrow>
      \<exists>r w'. sys_close S fd w = returns (r, w') \<and>
        moves vw safe good (\<lambda>v. v\<lparr>v_sockets := v_sockets v - {fd}\<rparr>) w w'"

locale process_memory =
  fixes S :: "'w posix" and vw :: "'w globals \<Rightarrow> view" and safe good :: "'w globals \<Rightarrow> bool"
  assumes malloc_law: "safe w \<Longrightarrow>
      \<exists>a bs w'. sys_malloc S n w = returns (Some (a, bs), w') \<and> length bs = unat n \<and> a \<notin> v_allocs (vw w) \<and>
        moves vw safe good (\<lambda>v. v\<lparr>v_allocs := insert a (v_allocs v)\<rparr>) w w'"
    and free_law: "safe w \<Longrightarrow> a \<in> v_allocs (vw w) \<Longrightarrow>
      \<exists>w'. sys_free S a w = returns ((), w') \<and>
        moves vw safe good (\<lambda>v. v\<lparr>v_allocs := v_allocs v - {a}\<rparr>) w w'"
    and mutex_law: "vw (w\<lparr>result_file_mutex := b\<rparr>) = (vw w)\<lparr>v_locked := b\<rparr>"
      "safe (w\<lparr>result_file_mutex := b\<rparr>) = safe w" "good (w\<lparr>result_file_mutex := b\<rparr>) = good w"
      "v_locked (vw w) = result_file_mutex w"
begin

lemma lock_law:
  assumes "safe w" and "\<not> v_locked (vw w)"
  shows "\<exists>w'. pthread_mutex_lock w = returns ((), w') \<and> moves vw safe good (\<lambda>v. v\<lparr>v_locked := True\<rparr>) w w'"
  using assms by (simp add: pthread_mutex_lock_def moves_def mutex_law)

lemma unlock_law:
  assumes "safe w" and "v_locked (vw w)"
  shows "\<exists>w'. pthread_mutex_unlock w = returns ((), w') \<and> moves vw safe good (\<lambda>v. v\<lparr>v_locked := False\<rparr>) w w'"
  using assms by (simp add: pthread_mutex_unlock_def moves_def mutex_law)

end

locale line_server =
  device_file S path vw safe good + client_sockets S vw safe good + process_memory S vw safe good
  for S :: "'w posix" and path :: string and vw :: "'w globals \<Rightarrow> view" and safe good :: "'w globals \<Rightarrow> bool"
begin

text \<open>
  Receiving a request: the client's segments up to the first short one reach the device, one
  write per segment.
\<close>

lemma receive_step:
  assumes "safe w" and "fd \<in> v_sockets (vw w)" and "v_inbox (vw w) fd = c # rest"
    and "length c \<le> 1024" and "length buf = 1024"
  obtains r :: int and a ps w' where "safe w'" and "r = 0 \<or> r = - 1"
    and "vw w' = (vw w)\<lparr>v_dev := a, v_pos := ps, v_inbox := (v_inbox (vw w))(fd := rest)\<rparr>"
    and "r = 0 \<longrightarrow> good w \<longrightarrow> good w' \<and> a = spec_write c (v_dev (vw w)) \<and> ps = v_pos (vw w)"
    and "receive_loop S path fd buf w =
      (if r = - 1 then returns (- 1, w')
       else if length c = 1024 then receive_loop S path fd (store_bytes c buf) w' else returns (0, w'))"
proof -
  have n: "unat BUFFER_SIZE = 1024" by (simp add: BUFFER_SIZE_def)
  obtain w1 where rc: "sys_recv S fd BUFFER_SIZE w = returns ((of_nat (length c), c), w1)"
    and m1: "moves vw safe good (\<lambda>v. v\<lparr>v_inbox := (v_inbox v)(fd := rest)\<rparr>) w w1"
    using recv_law [OF assms(1-3), of BUFFER_SIZE] assms(4) n by auto
  note v1 = movesD [OF m1]
  have un: "unat (of_nat (length c) :: size_t) = length c"
    using unat_of_nat_le [of "length c" BUFFER_SIZE] assms(4) n by simp
  then have eq: "(of_nat (length c) :: size_t) = BUFFER_SIZE \<longleftrightarrow> length c = 1024"
    and neg: "(of_nat (length c) :: size_t) \<noteq> - 1"
    using assms(4) n by (auto simp: word_unat_eq_iff)
  have "unat (of_nat (length c) :: size_t) \<le> length (store_bytes c buf)"
    and "unat (of_nat (length c) :: size_t) \<le> max_rw_count"
    and tk: "take (unat (of_nat (length c) :: size_t)) (store_bytes c buf) = c"
    using un assms(4,5) by (simp_all add: store_bytes_def max_rw_count_def)
  from append_to_file_law [OF v1(2) this(1,2)] obtain r a ps w2 where
    ap: "append_to_file S path (store_bytes c buf) (of_nat (length c)) w1 = returns (r, w2)"
    and s2: "safe w2" "r = 0 \<or> r = - 1" and v2: "vw w2 = (vw w1)\<lparr>v_dev := a, v_pos := ps\<rparr>"
    and g2: "r = 0 \<longrightarrow> good w1 \<longrightarrow> good w2 \<and> a = spec_write c (v_dev (vw w1)) \<and> ps = v_pos (vw w1)"
    unfolding tk by blast
  have loop: "receive_loop S path fd buf w =
      (if r = - 1 then returns (- 1, w2)
       else if length c = 1024 then receive_loop S path fd (store_bytes c buf) w2 else returns (0, w2))"
    by (subst receive_loop.simps) (simp add: rc ap neg eq)
  have "vw w2 = (vw w)\<lparr>v_dev := a, v_pos := ps, v_inbox := (v_inbox (vw w))(fd := rest)\<rparr>"
    unfolding v2 v1(1) by simp
  moreover have "r = 0 \<longrightarrow> good w \<longrightarrow> good w2 \<and> a = spec_write c (v_dev (vw w)) \<and> ps = v_pos (vw w)"
    using g2 v1(1,3) by simp
  ultimately show thesis using loop by (rule that [OF s2])
qed

lemma receive_law:
  assumes "list_all (\<lambda>c. length c = 1024) cs" and "length c < 1024"
    and "safe w" and "fd \<in> v_sockets (vw w)" and "v_inbox (vw w) fd = cs @ c # rest" and "length buf = 1024"
  shows "\<exists>r a ps ib w'. receive_loop S path fd buf w = returns (r, w') \<and> safe w' \<and> (r = 0 \<or> r = - 1) \<and>
    vw w' = (vw w)\<lparr>v_dev := a, v_pos := ps, v_inbox := ib\<rparr> \<and>
    (r = 0 \<longrightarrow> good w \<longrightarrow> good w' \<and> a = fold spec_write (cs @ [c]) (v_dev (vw w)) \<and>
       ps = v_pos (vw w) \<and> ib = (v_inbox (vw w))(fd := rest))"
  using assms(1,3-)
proof (induction cs arbitrary: w buf)
  case Nil
  have "length c \<le> 1024" and "v_inbox (vw w) fd = c # rest" using assms(2) Nil.prems by simp_all
  then obtain r :: int and a ps w' where
    w': "safe w'" "r = 0 \<or> r = - 1" "vw w' = (vw w)\<lparr>v_dev := a, v_pos := ps, v_inbox := (v_inbox (vw w))(fd := rest)\<rparr>"
      "r = 0 \<longrightarrow> good w \<longrightarrow> good w' \<and> a = spec_write c (v_dev (vw w)) \<and> ps = v_pos (vw w)"
    and "receive_loop S path fd buf w = (if r = - 1 then returns (- 1, w')
      else if length c = 1024 then receive_loop S path fd (store_bytes c buf) w' else returns (0, w'))"
    using Nil.prems(2,3,5) by (elim receive_step [rotated 2])
  then have "receive_loop S path fd buf w = returns (r, w')" using assms(2) by auto
  with w' show ?case
    by (intro exI [of _ r] exI [of _ a] exI [of _ ps] exI [of _ "(v_inbox (vw w))(fd := rest)"] exI [of _ w'])
      (simp add: fun_upd_def)
next
  case (Cons d cs)
  have "length d \<le> 1024" and "v_inbox (vw w) fd = d # cs @ c # rest" using Cons.prems by simp_all
  then obtain r :: int and a ps w1 where
    w1: "safe w1" "r = 0 \<or> r = - 1"
      "vw w1 = (vw w)\<lparr>v_dev := a, v_pos := ps, v_inbox := (v_inbox (vw w))(fd := cs @ c # rest)\<rparr>"
      "r = 0 \<longrightarrow> good w \<longrightarrow> good w1 \<and> a = spec_write d (v_dev (vw w)) \<and> ps = v_pos (vw w)"
    and step: "receive_loop S path fd buf w = (if r = - 1 then returns (- 1, w1)
      else if length d = 1024 then receive_loop S path fd (store_bytes d buf) w1 else returns (0, w1))"
    using Cons.prems(2,3,5) by (elim receive_step [rotated 2])
  then have loop: "receive_loop S path fd buf w =
      (if r = - 1 then returns (- 1, w1) else receive_loop S path fd (store_bytes d buf) w1)"
    using Cons.prems(1) by simp
  show ?case
  proof (cases "r = - 1")
    case True
    then show ?thesis using loop w1(1,3) by auto
  next
    case False
    have "length (store_bytes d buf) = 1024" using Cons.prems by (simp add: length_store_bytes)
    moreover have "list_all (\<lambda>c. length c = 1024) cs" "fd \<in> v_sockets (vw w1)"
      "v_inbox (vw w1) fd = cs @ c # rest" using Cons.prems w1(3) by simp_all
    ultimately obtain r' a' ps' ib w' where
      "receive_loop S path fd (store_bytes d buf) w1 = returns (r', w')" "safe w'" "r' = 0 \<or> r' = - 1"
      "vw w' = (vw w1)\<lparr>v_dev := a', v_pos := ps', v_inbox := ib\<rparr>"
      "r' = 0 \<longrightarrow> good w1 \<longrightarrow> good w' \<and> a' = fold spec_write (cs @ [c]) (v_dev (vw w1)) \<and>
         ps' = v_pos (vw w1) \<and> ib = (v_inbox (vw w1))(fd := rest)"
      using Cons.IH [of w1 "store_bytes d buf"] w1(1) by (elim meta_impE exE conjE) (assumption | rule that)+
    with loop w1 False show ?thesis
      by (intro exI [of _ r'] exI [of _ a'] exI [of _ ps'] exI [of _ ib] exI [of _ w']) auto
  qed
qed

text \<open>
  Sending one line, and the stored lines from the \<open>k\<close>-th on.
\<close>

lemma send_line_law:
  assumes "safe w" and "cfd \<in> v_sockets (vw w)" and "length d \<le> 32768" and "32768 \<le> length line"
  shows "\<exists>r s w'. socket_client_send_line S cfd (store_bytes d line) (of_nat (length d)) w = returns (r, w') \<and>
    (r = 0 \<or> r = - 1) \<and> (r = 0 \<longrightarrow> s = d) \<and>
    moves vw safe good (\<lambda>v. v\<lparr>v_outbox := (v_outbox v)(cfd := v_outbox v cfd @ s)\<rparr>) w w'"
proof -
  obtain r s w' where "sys_send S cfd d w = returns (r, w')" and "r = of_nat (length d) \<longrightarrow> s = d"
    and "moves vw safe good (\<lambda>v. v\<lparr>v_outbox := (v_outbox v)(cfd := v_outbox v cfd @ s)\<rparr>) w w'"
    using send_law [OF assms(1,2)] by blast
  moreover have "buffer_bytes (store_bytes d line) (of_nat (length d)) = Inr d"
    using assms(3,4) by (intro buffer_store [of _ line_len]) (simp_all add: line_len_def)
  ultimately show ?thesis
    by (auto simp: socket_client_send_line_def bindP_def)
qed

lemma read_line_law:
  assumes "safe w" and "v_log (vw w) = L" and "v_pos (vw w) fd = Some (length (concat (take k L)))"
    and "k \<le> length L" and "list_all (\<lambda>l. length l \<le> 32768) L"
  obtains w' where "sys_read S fd line_len w = returns ((of_nat (length (nth_line L k)), nth_line L k), w')"
    and "moves vw safe good
      (\<lambda>v. v\<lparr>v_pos := (v_pos v)(fd \<mapsto> length (concat (take k L)) + length (nth_line L k))\<rparr>) w w'"
proof -
  have "nth_line L k = (if k < length L then take (unat line_len) (L ! k) else [])"
    using assms(5) by (simp add: nth_line_def line_len_def list_all_length)
  then have "\<exists>w'. sys_read S fd line_len w = returns ((of_nat (length (nth_line L k)), nth_line L k), w') \<and>
      moves vw safe good
        (\<lambda>v. v\<lparr>v_pos := (v_pos v)(fd \<mapsto> length (concat (take k (v_log v))) + length (nth_line L k))\<rparr>) w w'"
    using assms by (intro read_law) (simp_all add: line_len_def max_rw_count_def)
  then show thesis using that assms(2) by (auto simp: moves_def)
qed

text \<open>One round of the send loop: it stops with an error or goes on with the next line.\<close>

lemma send_step:
  assumes L: "list_all (\<lambda>l. length l \<le> 32768) L" "[] \<notin> set L" "k < length L"
    and w: "safe w" "v_log (vw w) = L" "cfd \<in> v_sockets (vw w)" "length line = 32768"
    and pos: "v_pos (vw w) fd = Some (length (concat (take k L)) + length (L ! k))"
  obtains (stop) s w' where "send_loop S fd cfd (store_bytes (L ! k) line) (of_nat (length (L ! k))) w = returns (- 1, w')"
      and "moves vw safe good (\<lambda>v. v\<lparr>v_outbox := (v_outbox v)(cfd := v_outbox v cfd @ s)\<rparr>) w w'"
    | (go) w' where "send_loop S fd cfd (store_bytes (L ! k) line) (of_nat (length (L ! k))) w =
        send_loop S fd cfd (store_bytes (nth_line L (Suc k)) (store_bytes (L ! k) line))
          (of_nat (length (nth_line L (Suc k)))) w'"
      and "moves vw safe good (\<lambda>v. v\<lparr>v_pos := (v_pos v)(fd \<mapsto> length (concat (take (Suc k) L)) + length (nth_line L (Suc k))),
          v_outbox := (v_outbox v)(cfd := v_outbox v cfd @ L ! k)\<rparr>) w w'"
proof -
  let ?d = "L ! k" and ?d' = "nth_line L (Suc k)"
  have d: "length ?d \<le> 32768" "?d \<noteq> []"
    using L by (simp add: list_all_length) (metis L(2,3) nth_mem)
  have nz: "(of_nat (length ?d) :: size_t) \<noteq> 0"
    using d unat_of_nat_le [of "length ?d" line_len] by (auto simp: line_len_def)
  obtain r s w1 where sl: "socket_client_send_line S cfd (store_bytes ?d line) (of_nat (length ?d)) w = returns (r, w1)"
    and r: "r = 0 \<or> r = - 1" "r = 0 \<longrightarrow> s = ?d"
    and m1: "moves vw safe good (\<lambda>v. v\<lparr>v_outbox := (v_outbox v)(cfd := v_outbox v cfd @ s)\<rparr>) w w1"
    using send_line_law [OF w(1,3) d(1), of line] w(4) by (elim meta_impE exE conjE) (simp, rule that)
  note v1 = movesD [OF m1]
  show thesis
  proof (cases "r = 0")
    case False
    then have "send_loop S fd cfd (store_bytes ?d line) (of_nat (length ?d)) w = returns (- 1, w1)"
      using nz sl by (subst send_loop.simps) simp
    then show thesis using m1 by (rule stop)
  next
    case True
    have "v_log (vw w1) = L" and "v_pos (vw w1) fd = Some (length (concat (take (Suc k) L)))"
      and "Suc k \<le> length L"
      using v1(1) w(2) pos L(3) by (simp_all add: take_Suc_conv_app_nth)
    then obtain w2 where rd: "sys_read S fd line_len w1 = returns ((of_nat (length ?d'), ?d'), w2)"
      and m2: "moves vw safe good
        (\<lambda>v. v\<lparr>v_pos := (v_pos v)(fd \<mapsto> length (concat (take (Suc k) L)) + length ?d')\<rparr>) w1 w2"
      using read_line_law [OF v1(2) _ _ _ L(1)] by blast
    show thesis
    proof (rule go)
      show "send_loop S fd cfd (store_bytes ?d line) (of_nat (length ?d)) w =
          send_loop S fd cfd (store_bytes ?d' (store_bytes ?d line)) (of_nat (length ?d')) w2"
        using nz sl True rd by (subst send_loop.simps) simp
    qed (use m1 m2 r(2) True in \<open>auto simp: moves_def\<close>)
  qed
qed

lemma send_loop_law:
  assumes L: "list_all (\<lambda>l. length l \<le> 32768) L" "[] \<notin> set L" and "length L = k + m"
    and "safe w" and "v_log (vw w) = L" and "cfd \<in> v_sockets (vw w)" and "length line = 32768"
    and "v_pos (vw w) fd = Some (length (concat (take k L)) + length (nth_line L k))"
  shows "\<exists>r s p w'. send_loop S fd cfd (store_bytes (nth_line L k) line) (of_nat (length (nth_line L k))) w =
      returns (r, w') \<and> (r = 0 \<or> r = - 1) \<and> (r = 0 \<longrightarrow> s = concat (drop k L)) \<and>
    moves vw safe good (\<lambda>v. v\<lparr>v_pos := (v_pos v)(fd \<mapsto> p), v_outbox := (v_outbox v)(cfd := v_outbox v cfd @ s)\<rparr>) w w'"
  using assms(3-)
proof (induction m arbitrary: k w line)
  case 0
  then have "nth_line L k = []" by (simp add: nth_line_def)
  then have "send_loop S fd cfd (store_bytes (nth_line L k) line) (of_nat (length (nth_line L k))) w = returns (0, w)"
    by (subst send_loop.simps) simp
  with 0 show ?case
    by (intro exI [of _ "0 :: int"] exI [of _ "[]"] exI [of _ "length (concat (take k L)) + length (nth_line L k)"] exI [of _ w])
      (simp add: moves_def fun_upd_idem del: fun_upd_apply)
next
  case (Suc m)
  have k: "k < length L" and d: "nth_line L k = L ! k" using Suc.prems by (simp_all add: nth_line_def)
  from L k Suc.prems(2-5) Suc.prems(6) [unfolded d] show ?case
  proof (cases rule: send_step)
    case (stop s w')
    then show ?thesis
      using Suc.prems(6) unfolding d
      by (intro exI [of _ "- 1"] exI [of _ s] exI [of _ "length (concat (take k L)) + length (L ! k)"] exI [of _ w'])
        (simp add: moves_def fun_upd_idem del: fun_upd_apply)
  next
    case (go w1)
    note v1 = movesD [OF go(2)]
    have "length (store_bytes (L ! k) line) = 32768"
      using L(1) k Suc.prems(5) by (simp add: length_store_bytes list_all_length)
    moreover have "length L = Suc k + m" "v_log (vw w1) = L" "cfd \<in> v_sockets (vw w1)"
      "v_pos (vw w1) fd = Some (length (concat (take (Suc k) L)) + length (nth_line L (Suc k)))"
      using Suc.prems v1(1) by simp_all
    ultimately obtain r s p w' where lp: "send_loop S fd cfd (store_bytes (nth_line L (Suc k)) (store_bytes (L ! k) line))
          (of_nat (length (nth_line L (Suc k)))) w1 = returns (r, w')"
      and r: "r = 0 \<or> r = - 1" "r = 0 \<longrightarrow> s = concat (drop (Suc k) L)"
      and m: "moves vw safe good (\<lambda>v. v\<lparr>v_pos := (v_pos v)(fd \<mapsto> p), v_outbox := (v_outbox v)(cfd := v_outbox v cfd @ s)\<rparr>) w1 w'"
      using Suc.IH [OF _ v1(2)] by blast
    have mv: "moves vw safe good (\<lambda>v. v\<lparr>v_pos := (v_pos v)(fd \<mapsto> p),
        v_outbox := (v_outbox v)(cfd := v_outbox v cfd @ L ! k @ s)\<rparr>) w w'"
      using movesD [OF m] v1 by (simp add: moves_def)
    have "concat (drop k L) = L ! k @ concat (drop (Suc k) L)"
      using k by (metis Cons_nth_drop_Suc concat.simps(2))
    with lp r show ?thesis
      unfolding d go(1)
      by (intro exI [of _ r] exI [of _ "L ! k @ s"] exI [of _ p] exI [of _ w'] conjI) (rule mv | simp)+
  qed
qed

text \<open>The buffer is freed and the descriptor closed; the mutex is released and the socket closed.\<close>

lemma release_law:
  assumes "safe w" and "addr \<in> v_allocs (vw w)" and "v_pos (vw w) fd = Some p"
  obtains w' where "bindP (sys_free S addr) (\<lambda>_. bindP (sys_close S fd) (\<lambda>_. retP x)) w = returns (x, w')"
    and "moves vw safe good (\<lambda>v. v\<lparr>v_allocs := v_allocs v - {addr}, v_pos := (v_pos v)(fd := None)\<rparr>) w w'"
proof -
  obtain w1 where fr: "sys_free S addr w = returns ((), w1)"
    and m1: "moves vw safe good (\<lambda>v. v\<lparr>v_allocs := v_allocs v - {addr}\<rparr>) w w1"
    using free_law [OF assms(1,2)] by blast
  note v1 = movesD [OF m1]
  have "v_pos (vw w1) fd = Some p" by (simp add: v1(1) assms(3))
  then obtain w2 where cl: "sys_close S fd w1 = returns (0, w2)"
    and m2: "moves vw safe good (\<lambda>v. v\<lparr>v_pos := (v_pos v)(fd := None)\<rparr>) w1 w2"
    using close_law [OF v1(2)] by blast
  show thesis
    by (rule that [of w2]) (use v1 movesD [OF m2] in \<open>simp_all add: bindP_def fr cl moves_def\<close>)
qed

lemma worker_end_law:
  assumes "safe w" and "v_locked (vw w)" and "client_fd td \<in> v_sockets (vw w)"
  obtains w' where "worker_end S td st w = returns (td\<lparr>thread_status := st\<rparr>, w')"
    and "moves vw safe good (\<lambda>v. v\<lparr>v_locked := False, v_sockets := v_sockets v - {client_fd td}\<rparr>) w w'"
proof -
  obtain w1 where un: "pthread_mutex_unlock w = returns ((), w1)"
    and m1: "moves vw safe good (\<lambda>v. v\<lparr>v_locked := False\<rparr>) w w1"
    using unlock_law [OF assms(1,2)] by blast
  note v1 = movesD [OF m1]
  have "client_fd td \<in> v_sockets (vw w1)" by (simp add: v1(1) assms(3))
  then obtain r w2 where cl: "sys_close S (client_fd td) w1 = returns (r, w2)"
    and m2: "moves vw safe good (\<lambda>v. v\<lparr>v_sockets := v_sockets v - {client_fd td}\<rparr>) w1 w2"
    using close_socket_law [OF v1(2)] by blast
  show thesis
    by (rule that [of w2]) (use v1 movesD [OF m2] in \<open>simp_all add: worker_end_def bindP_def un cl moves_def\<close>)
qed

text \<open>
  Sending the file back: with every stored line short enough, the client receives all stored
  lines in order, and descriptor and buffer are released.
\<close>

lemma send_file_law:
  assumes "list_all (\<lambda>l. length l \<le> 32768) (v_log (vw w))"
    and "safe w" and "cfd \<in> v_sockets (vw w)"
  shows "\<exists>r ps ob al w'. socket_client_send_file S path cfd w = returns (r, w') \<and> (r = 0 \<or> r = - 1) \<and>
    moves vw safe good (\<lambda>v. v\<lparr>v_pos := ps, v_outbox := ob, v_allocs := al\<rparr>) w w' \<and>
    (r = 0 \<longrightarrow> ps = v_pos (vw w) \<and> al = v_allocs (vw w) \<and>
       ob = (v_outbox (vw w))(cfd := v_outbox (vw w) cfd @ concat (v_log (vw w))))"
proof -
  let ?L = "v_log (vw w)"
  obtain fd w1 where op: "sys_open S path [O_RDONLY] 0 w = returns (fd, w1)" and fresh: "v_pos (vw w) fd = None"
    and m1: "moves vw safe good (\<lambda>v. v\<lparr>v_pos := (v_pos v)(fd \<mapsto> 0)\<rparr>) w w1"
    using open_law [OF assms(2)] by blast
  note v1 = movesD [OF m1]
  obtain addr line w2 where ma: "sys_malloc S line_len w1 = returns (Some (addr, line), w2)"
    and line: "length line = unat line_len" and new: "addr \<notin> v_allocs (vw w1)"
    and m2: "moves vw safe good (\<lambda>v. v\<lparr>v_allocs := insert addr (v_allocs v)\<rparr>) w1 w2"
    using malloc_law [OF v1(2)] by blast
  note v2 = movesD [OF m2]
  have log: "v_log (vw w2) = ?L" and pos: "v_pos (vw w2) fd = Some (length (concat (take 0 ?L)))"
    using v1(1) v2(1) by simp_all
  obtain w3 where rd: "sys_read S fd line_len w2 = returns ((of_nat (length (nth_line ?L 0)), nth_line ?L 0), w3)"
    and m3: "moves vw safe good (\<lambda>v. v\<lparr>v_pos := (v_pos v)(fd \<mapsto> length (concat (take 0 ?L)) + length (nth_line ?L 0))\<rparr>) w2 w3"
    using read_line_law [OF v2(2) log pos _ assms(1)] by blast
  note v3 = movesD [OF m3]
  have "length ?L = 0 + length ?L" "v_log (vw w3) = ?L" "cfd \<in> v_sockets (vw w3)" "length line = 32768"
      "v_pos (vw w3) fd = Some (length (concat (take 0 ?L)) + length (nth_line ?L 0))"
    using v1(1) v2(1) v3(1) assms(3) line by (simp_all add: line_len_def)
  from send_loop_law [OF assms(1) nonempty_lines [OF assms(2)] this(1) v3(2) this(2-)] obtain r s p w4 where
    lp: "send_loop S fd cfd (store_bytes (nth_line ?L 0) line) (of_nat (length (nth_line ?L 0))) w3 = returns (r, w4)"
    and r: "r = 0 \<or> r = - 1" "r = 0 \<longrightarrow> s = concat (drop 0 ?L)"
    and m4: "moves vw safe good (\<lambda>v. v\<lparr>v_pos := (v_pos v)(fd \<mapsto> p), v_outbox := (v_outbox v)(cfd := v_outbox v cfd @ s)\<rparr>) w3 w4"
    by blast
  note v4 = movesD [OF m4]
  have vw4: "vw w4 = (vw w)\<lparr>v_pos := (v_pos (vw w))(fd \<mapsto> p), v_allocs := insert addr (v_allocs (vw w)),
      v_outbox := (v_outbox (vw w))(cfd := v_outbox (vw w) cfd @ s)\<rparr>"
    using v1(1) v2(1) v3(1) v4(1) by simp
  have sf: "socket_client_send_file S path cfd w = (if r = - 1 then returns (- 1, w4) else
      bindP (sys_free S addr) (\<lambda>_. bindP (sys_close S fd) (\<lambda>_. retP 0)) w4)"
    by (simp add: socket_client_send_file_def bindP_def op ma rd lp)
  show ?thesis
  proof (cases "r = 0")
    case False
    then show ?thesis using sf r(1) vw4 v1(3) v2(3) v3(3) v4(2,3)
      by (intro exI [of _ "- 1"] exI [of _ "v_pos (vw w4)"] exI [of _ "v_outbox (vw w4)"]
          exI [of _ "v_allocs (vw w4)"] exI [of _ w4]) (simp add: moves_def)
  next
    case True
    obtain w6 where rel: "bindP (sys_free S addr) (\<lambda>_. bindP (sys_close S fd) (\<lambda>_. retP 0)) w4 = returns (0 :: int, w6)"
      and m6: "moves vw safe good (\<lambda>v. v\<lparr>v_allocs := v_allocs v - {addr}, v_pos := (v_pos v)(fd := None)\<rparr>) w4 w6"
      by (rule release_law [OF v4(2), of addr fd p]) (simp_all add: vw4)
    note v6 = movesD [OF m6]
    have "socket_client_send_file S path cfd w = returns (0, w6)"
      using sf True rel by simp
    moreover have "vw w6 = (vw w)\<lparr>v_pos := v_pos (vw w), v_outbox := (v_outbox (vw w))(cfd := v_outbox (vw w) cfd @ concat ?L),
        v_allocs := v_allocs (vw w)\<rparr>"
      using v6(1) vw4 r(2) True fresh new v1(1) by (simp add: fun_upd_idem)
    ultimately show ?thesis using v6(2,3) v4(3) v3(3) v2(3) v1(3)
      by (intro exI [of _ "0 :: int"] exI [of _ "v_pos (vw w)"] exI [of _ "(v_outbox (vw w))(cfd := v_outbox (vw w) cfd @ concat ?L)"]
          exI [of _ "v_allocs (vw w)"] exI [of _ w6]) (simp add: moves_def)
  qed
qed

lemma worker_reply_law:
  assumes path: "path = RESULT_FILE" and w: "safe w" "\<not> v_locked (vw w)" "client_fd td \<in> v_sockets (vw w)"
    and L: "list_all (\<lambda>l. length l \<le> 32768) (v_log (vw w))"
  shows "\<exists>st ps ob al w'. worker_reply S td w = returns (td\<lparr>thread_status := st\<rparr>, w') \<and> (st = SUCCEEDED \<or> st = FAILED) \<and>
    moves vw safe good (\<lambda>v. v\<lparr>v_pos := ps, v_outbox := ob, v_allocs := al, v_sockets := v_sockets v - {client_fd td}\<rparr>) w w' \<and>
    (st = SUCCEEDED \<longrightarrow> ps = v_pos (vw w) \<and> al = v_allocs (vw w) \<and>
       ob = (v_outbox (vw w))(client_fd td := v_outbox (vw w) (client_fd td) @ concat (v_log (vw w))))"
proof -
  obtain w1 where lk: "pthread_mutex_lock w = returns ((), w1)"
    and m1: "moves vw safe good (\<lambda>v. v\<lparr>v_locked := True\<rparr>) w w1"
    using lock_law [OF w(1,2)] by blast
  note v1 = movesD [OF m1]
  have "list_all (\<lambda>l. length l \<le> 32768) (v_log (vw w1))" "client_fd td \<in> v_sockets (vw w1)"
    using L w(3) by (simp_all add: v1(1))
  from send_file_law [OF this(1) v1(2) this(2)] obtain r ps ob al w2 where
    sf: "socket_client_send_file S path (client_fd td) w1 = returns (r, w2)" "r = 0 \<or> r = - 1"
    and m2: "moves vw safe good (\<lambda>v. v\<lparr>v_pos := ps, v_outbox := ob, v_allocs := al\<rparr>) w1 w2"
    and ok: "r = 0 \<longrightarrow> ps = v_pos (vw w1) \<and> al = v_allocs (vw w1) \<and>
       ob = (v_outbox (vw w1))(client_fd td := v_outbox (vw w1) (client_fd td) @ concat (v_log (vw w1)))"
    by (elim exE conjE) (rule that)
  note v2 = movesD [OF m2]
  have lk2: "v_locked (vw w2)" and fd2: "client_fd td \<in> v_sockets (vw w2)"
    using w(3) by (simp_all add: v2(1) v1(1))
  let ?st = "if r = - 1 then FAILED else SUCCEEDED"
  obtain w3 where fin: "worker_end S td ?st w2 = returns (td\<lparr>thread_status := ?st\<rparr>, w3)"
    and m3: "moves vw safe good (\<lambda>v. v\<lparr>v_locked := False, v_sockets := v_sockets v - {client_fd td}\<rparr>) w2 w3"
    by (rule worker_end_law [OF v2(2) lk2 fd2])
  have run: "worker_reply S td w = returns (td\<lparr>thread_status := ?st\<rparr>, w3)"
    using lk sf(1) fin path by (simp add: worker_reply_def bindP_def split: if_splits)
  have mv: "moves vw safe good (\<lambda>v. v\<lparr>v_pos := ps, v_outbox := ob, v_allocs := al, v_sockets := v_sockets v - {client_fd td}\<rparr>) w w3"
    using movesD [OF m3] v2 v1 w(2) by (cases "vw w") (simp add: moves_def)
  show ?thesis
    by (rule exI [of _ ?st], intro exI conjI, rule run, simp, rule mv) (use ok sf(2) v1(1) in auto)
qed

text \<open>
  A worker: it ends with the mutex released and its socket closed; when it succeeds, the client's
  request is in the device and the client has received everything the device then stores.
\<close>

lemma worker_law:
  assumes path: "path = RESULT_FILE" and w: "safe w" "good w" "\<not> v_locked (vw w)" "client_fd arg \<in> v_sockets (vw w)"
    and req: "v_inbox (vw w) (client_fd arg) = cs @ c # rest" "list_all (\<lambda>c. length c = 1024) cs"
      "length c < 1024" "length buf = 1024"
    and D: "D = fold spec_write (cs @ [c]) (v_dev (vw w))" "list_all (\<lambda>l. length l \<le> 32768) (spec_log D)"
  shows "\<exists>td w'. data_transfer_worker S arg buf w = returns (td, w') \<and> safe w' \<and> client_fd td = client_fd arg \<and>
    \<not> v_locked (vw w') \<and> v_sockets (vw w') = v_sockets (vw w) - {client_fd arg} \<and>
    (thread_status td = SUCCEEDED \<or> thread_status td = FAILED) \<and>
    (thread_status td = SUCCEEDED \<longrightarrow> good w' \<and> v_dev (vw w') = D \<and>
       v_pos (vw w') = v_pos (vw w) \<and> v_allocs (vw w') = v_allocs (vw w) \<and>
       v_outbox (vw w') = (v_outbox (vw w))(client_fd arg := v_outbox (vw w) (client_fd arg) @ concat (spec_log D)))"
proof -
  let ?fd = "client_fd arg" and ?td = "arg\<lparr>thread_status := RUNNING\<rparr>"
  obtain w1 where lk: "pthread_mutex_lock w = returns ((), w1)"
    and m1: "moves vw safe good (\<lambda>v. v\<lparr>v_locked := True\<rparr>) w w1"
    using lock_law [OF w(1,3)] by blast
  note v1 = movesD [OF m1]
  have "?fd \<in> v_sockets (vw w1)" "v_inbox (vw w1) ?fd = cs @ c # rest"
    by (simp_all add: v1(1) w(4) req(1))
  from receive_law [OF req(2,3) v1(2) this req(4)] obtain r a ps ib w2 where
    rcv: "receive_loop S path ?fd buf w1 = returns (r, w2)" and s2: "safe w2" "r = 0 \<or> r = - 1"
    and v2: "vw w2 = (vw w1)\<lparr>v_dev := a, v_pos := ps, v_inbox := ib\<rparr>"
    and g2: "r = 0 \<longrightarrow> good w1 \<longrightarrow> good w2 \<and> a = fold spec_write (cs @ [c]) (v_dev (vw w1)) \<and>
      ps = v_pos (vw w1) \<and> ib = (v_inbox (vw w1))(?fd := rest)"
    by (elim exE conjE) (rule that)
  have fd2: "client_fd ?td \<in> v_sockets (vw w2)" and lk2: "v_locked (vw w2)" by (simp_all add: v2 v1(1) w(4))
  have run: "data_transfer_worker S arg buf w =
      (if r = - 1 then worker_end S ?td FAILED w2 else bindP pthread_mutex_unlock (\<lambda>_. worker_reply S ?td) w2)"
    using lk rcv path
    by (simp add: data_transfer_worker_def socket_client_receive_and_write_data_def bindP_def Let_def)
  show ?thesis
  proof (cases "r = 0")
    case False
    obtain w3 where "worker_end S ?td FAILED w2 = returns (?td\<lparr>thread_status := FAILED\<rparr>, w3)"
      and "moves vw safe good (\<lambda>v. v\<lparr>v_locked := False, v_sockets := v_sockets v - {client_fd ?td}\<rparr>) w2 w3"
      by (rule worker_end_law [OF s2(1) lk2 fd2])
    then show ?thesis unfolding run using False s2(2) v2 v1(1) by (simp add: moves_def)
  next
    case True
    then have g: "good w2" "v_dev (vw w2) = D" "v_pos (vw w2) = v_pos (vw w)"
      using g2 v2 v1 w(2) D(1) by simp_all
    obtain w3 where un: "pthread_mutex_unlock w2 = returns ((), w3)"
      and m3: "moves vw safe good (\<lambda>v. v\<lparr>v_locked := False\<rparr>) w2 w3"
      using unlock_law [OF s2(1) lk2] by blast
    note v3 = movesD [OF m3]
    have "\<not> v_locked (vw w3)" "client_fd ?td \<in> v_sockets (vw w3)" "list_all (\<lambda>l. length l \<le> 32768) (v_log (vw w3))"
      using fd2 D(2) g(2) by (simp_all add: v3(1))
    from worker_reply_law [OF path v3(2) this] obtain st ps' ob al w4 where
      rep: "worker_reply S ?td w3 = returns (?td\<lparr>thread_status := st\<rparr>, w4)" "st = SUCCEEDED \<or> st = FAILED"
      and m4: "moves vw safe good (\<lambda>v. v\<lparr>v_pos := ps', v_outbox := ob, v_allocs := al, v_sockets := v_sockets v - {client_fd ?td}\<rparr>) w3 w4"
      and ok: "st = SUCCEEDED \<longrightarrow> ps' = v_pos (vw w3) \<and> al = v_allocs (vw w3) \<and>
         ob = (v_outbox (vw w3))(client_fd ?td := v_outbox (vw w3) (client_fd ?td) @ concat (v_log (vw w3)))"
      by (elim exE conjE) (rule that)
    note v4 = movesD [OF m4]
    have "data_transfer_worker S arg buf w = returns (?td\<lparr>thread_status := st\<rparr>, w4)"
      unfolding run using True un rep(1) by (simp add: bindP_def)
    then show ?thesis
      using rep(2) ok v4 v3 g v2 v1(1) by (intro exI [of _ "?td\<lparr>thread_status := st\<rparr>"] exI [of _ w4]) simp
  qed
qed

end

end
