(* ===== verification/Connection.thy ===== *)
theory Connection
  imports Socket_Client
begin

text \<open>
  Waiting for a connection ends: the contract of the clock that
  \<^verbatim>\<open>socket_client_create_connection\<close> relies on, and the bounded wait that follows from it.
\<close>

locale monotonic_clock =
  fixes S :: "'w posix" and now :: "'w globals \<Rightarrow> int"
  assumes clock_law: "\<exists>t w'. sys_clock S w = returns (t, w') \<and> timespec_norm t \<and>
      now w \<le> nanoseconds t \<and> nanoseconds t \<le> now w'"
    and accept_law: "\<exists>fd w'. sys_accept S server_fd w = returns (fd, w') \<and> now w \<le> now w'"
    and sleep_law: "\<exists>w'. sys_nanosleep S accept_delay w = returns ((), w') \<and> now w < now w'"
begin

text \<open>
  The loop returns one of the four codes. Code 0 comes with a descriptor, code 1 only after the
  termination flag is set, code 2 only once the deadline has passed.
\<close>

lemma accept_loop_ends:
  assumes "timespec_norm end_time"
  shows "\<exists>code fd w'. accept_loop S server_fd end_time client_fd w = returns ((code, fd), w') \<and>
    (code = 0 \<and> 0 \<le> fd \<or> code = 1 \<and> is_terminated w' \<or> code = 2 \<and> nanoseconds end_time < now w' \<or> code = - 1)"
proof (induction "nat (nanoseconds end_time + 1 - now w)" arbitrary: client_fd w rule: less_induct)
  case less
  obtain t w1 where ck: "sys_clock S w = returns (t, w1)" "timespec_norm t" "now w \<le> nanoseconds t"
    "nanoseconds t \<le> now w1" using clock_law by blast
  obtain fd w2 where ac: "sys_accept S server_fd w1 = returns (fd, w2)" "now w1 \<le> now w2"
    using accept_law by blast
  obtain w3 where sl: "sys_nanosleep S accept_delay w2 = returns ((), w3)" "now w2 < now w3"
    using sleep_law by blast
  have round: "accept_loop S server_fd end_time client_fd w =
     (if client_fd < 0 then
        if is_terminated w then returns ((1, client_fd), w)
        else if nanoseconds end_time < nanoseconds t then returns ((2, client_fd), w1)
        else if sys_errno S w2 = EAGAIN then accept_loop S server_fd end_time fd w3
        else returns ((- 1, fd), w2)
      else returns ((0, client_fd), w))"
    using ck(1) ac(1) sl(1) elapsed_iff [OF assms ck(2)]
    by (subst accept_loop.simps) (simp add: config_is_terminated_def)
  show ?case
  proof (cases "client_fd < 0 \<and> \<not> is_terminated w \<and> nanoseconds t \<le> nanoseconds end_time \<and> sys_errno S w2 = EAGAIN")
    case True
    have "now w \<le> nanoseconds end_time" "now w < now w3" using True ck ac sl by linarith+
    then have "nat (nanoseconds end_time + 1 - now w3) < nat (nanoseconds end_time + 1 - now w)" by simp
    from less [OF this] True show ?thesis unfolding round by simp
  next
    case False
    then show ?thesis unfolding round using ck(4) by auto
  qed
qed

lemma create_connection_ends:
  assumes "timespec_norm timeout" and "\<And>t w'. sys_clock S w = returns (t, w') \<Longrightarrow>
      - (2 ^ 63) \<le> tv_sec t + tv_sec timeout \<and> tv_sec t + tv_sec timeout + 1 < 2 ^ 63"
  shows "\<exists>code fd w'. socket_client_create_connection S server_fd timeout w = returns ((code, fd), w') \<and>
    (code = 0 \<and> 0 \<le> fd \<or> code = 1 \<and> is_terminated w' \<or>
     code = 2 \<and> now w + nanoseconds timeout < now w' \<or> code = - 1)"
proof -
  obtain t w1 where ck: "sys_clock S w = returns (t, w1)" "timespec_norm t" "now w \<le> nanoseconds t"
    using clock_law by blast
  obtain d where d: "timespec_add t timeout = Inr d" "timespec_norm d" "nanoseconds d = nanoseconds t + nanoseconds timeout"
    using timespec_add_outcome [OF ck(2) assms(1)] assms(2) [OF ck(1)] by blast
  have "socket_client_create_connection S server_fd timeout w = accept_loop S server_fd d (- 1) w1"
    using ck(1) d(1) by (simp add: socket_client_create_connection_def bindP_def)
  with accept_loop_ends [OF d(2), of server_fd "- 1" w1] ck(3) d(3) show ?thesis by fastforce
qed

end

end
