(* ===== verification/Device_Backend.thy ===== *)
theory Device_Backend
  imports Server_Contract Connection
begin

text \<open>
  The system the server is installed on: the result file is \<^verbatim>\<open>/dev/aesdchar\<close>, whose calls the
  kernel dispatches to the driver's \<^verbatim>\<open>file_operations\<close>. It is an instance of the server's
  contract for every kernel that keeps the driver's contract, which ties the two halves of the
  repository together.
\<close>

section \<open>State and calls\<close>

text \<open>
  The driver, the descriptors open on the device with their positions, the sockets with the
  segments to be received and the bytes sent, the buffers of the process, the connections that
  wait to be accepted (each as the segments it will deliver), the error number and the clock.
\<close>

record 'e system =
  drv :: "'e driver"
  fds :: "int \<rightharpoonup> struct_file \<times> loff_t"
  next_fd :: nat
  socks :: "int set"
  rx :: "int \<Rightarrow> byte list list"
  tx :: "int \<Rightarrow> byte list"
  allocs :: "nat set"
  next_addr :: nat
  backlog :: "byte list list list"
  errno :: int
  clock_ns :: int

definition set_world :: "('e system \<Rightarrow> 'e system) \<Rightarrow> 'e system globals \<Rightarrow> 'e system globals" where
  "set_world f w = w\<lparr>world := f (world w)\<rparr>"

definition dev_open :: "('e system, int) proc" where
  "dev_open w =
     (let s = world w; fd = int (next_fd s); (r, filp) = aesd_open \<lparr>private_data = None\<rparr>
      in returns (fd, set_world (\<lambda>s. s\<lparr>fds := (fds s)(fd \<mapsto> (filp, 0)), next_fd := Suc (next_fd s)\<rparr>) w))"

text \<open>The kernel turns a negative result of the driver into the return value -1.\<close>

definition dev_write :: "'e kernel_api \<Rightarrow> int \<Rightarrow> byte list \<Rightarrow> ('e system, ssize_t) proc" where
  "dev_write K fd d w =
     (case fds (world w) fd of
        None \<Rightarrow> returns (- 1, w)
      | Some (filp, pos) \<Rightarrow>
          (case aesd_write K filp d (of_nat (length d)) pos (drv (world w)) of
             Inl e \<Rightarrow> Some (Inl e)
           | Inr (ret, pos', s') \<Rightarrow>
               returns (if sint ret < 0 then - 1 else ret,
                 set_world (\<lambda>s. s\<lparr>drv := s', fds := (fds s)(fd \<mapsto> (filp, pos'))\<rparr>) w)))"

definition dev_read :: "'e kernel_api \<Rightarrow> int \<Rightarrow> size_t \<Rightarrow> ('e system, ssize_t \<times> byte list) proc" where
  "dev_read K fd n w =
     (case fds (world w) fd of
        None \<Rightarrow> returns ((- 1, []), w)
      | Some (filp, pos) \<Rightarrow>
          (case aesd_read K filp n pos (drv (world w)) of
             Inl e \<Rightarrow> Some (Inl e)
           | Inr (ret, out, pos', s') \<Rightarrow>
               returns ((if sint ret < 0 then - 1 else ret, out),
                 set_world (\<lambda>s. s\<lparr>drv := s', fds := (fds s)(fd \<mapsto> (filp, pos'))\<rparr>) w)))"

definition dev_close :: "int \<Rightarrow> ('e system, int) proc" where
  "dev_close fd w =
     (case fds (world w) fd of
        Some (filp, pos) \<Rightarrow> returns (aesd_release filp, set_world (\<lambda>s. s\<lparr>fds := (fds s)(fd := None)\<rparr>) w)
      | None \<Rightarrow>
          if fd \<in> socks (world w) then returns (0, set_world (\<lambda>s. s\<lparr>socks := socks s - {fd}\<rparr>) w)
          else returns (- 1, w))"

text \<open>
  Sockets: a receive takes the next segment, or a part of it that fits; with none left the peer
  has closed the connection. A send takes all bytes.
\<close>

definition sock_recv :: "int \<Rightarrow> size_t \<Rightarrow> ('e system, ssize_t \<times> byte list) proc" where
  "sock_recv fd n w =
     (if fd \<notin> socks (world w) then returns ((- 1, []), w)
      else case rx (world w) fd of
        [] \<Rightarrow> returns ((0, []), w)
      | c # cs \<Rightarrow>
          if length c \<le> unat n
          then returns ((of_nat (length c), c), set_world (\<lambda>s. s\<lparr>rx := (rx s)(fd := cs)\<rparr>) w)
          else returns ((n, take (unat n) c), set_world (\<lambda>s. s\<lparr>rx := (rx s)(fd := drop (unat n) c # cs)\<rparr>) w))"

definition sock_send :: "int \<Rightarrow> byte list \<Rightarrow> ('e system, ssize_t) proc" where
  "sock_send fd d w =
     (if fd \<notin> socks (world w) then returns (- 1, w)
      else returns (of_nat (length d), set_world (\<lambda>s. s\<lparr>tx := (tx s)(fd := tx s fd @ d)\<rparr>) w))"

definition heap_malloc :: "size_t \<Rightarrow> ('e system, (nat \<times> byte list) option) proc" where
  "heap_malloc n w =
     (let a = next_addr (world w)
      in returns (Some (a, replicate (unat n) 0),
           set_world (\<lambda>s. s\<lparr>allocs := insert a (allocs s), next_addr := Suc a\<rparr>) w))"

definition heap_free :: "nat \<Rightarrow> ('e system, unit) proc" where
  "heap_free a w =
     (if a \<in> allocs (world w) then returns ((), set_world (\<lambda>s. s\<lparr>allocs := allocs s - {a}\<rparr>) w)
      else Some (Inl BadFree))"

text \<open>
  The listening socket does not block: with no connection waiting, accepting fails with EAGAIN. A
  call that succeeds leaves the error number alone.
\<close>

definition sock_accept :: "int \<Rightarrow> ('e system, int) proc" where
  "sock_accept server_fd w =
     (case backlog (world w) of
        [] \<Rightarrow> returns (- 1, set_world (\<lambda>s. s\<lparr>errno := EAGAIN\<rparr>) w)
      | c # cs \<Rightarrow>
          let fd = int (next_fd (world w))
          in returns (fd, set_world (\<lambda>s. s\<lparr>backlog := cs, socks := insert fd (socks s), rx := (rx s)(fd := c),
               tx := (tx s)(fd := []), next_fd := Suc (next_fd s)\<rparr>) w))"

definition clock_read :: "('e system, timespec) proc" where
  "clock_read w = returns (\<lparr>tv_sec = clock_ns (world w) div 1000000000, tv_nsec = clock_ns (world w) mod 1000000000\<rparr>, w)"

definition clock_sleep :: "timespec \<Rightarrow> ('e system, unit) proc" where
  "clock_sleep t w = returns ((), set_world (\<lambda>s. s\<lparr>clock_ns := clock_ns s + nanoseconds t\<rparr>) w)"

text \<open>The calls on the device, sockets, buffers and clock; every other call is that of a given system.\<close>

definition aesd_posix :: "'e kernel_api \<Rightarrow> 'e system posix \<Rightarrow> 'e system posix" where
  "aesd_posix K base = base\<lparr>
     sys_open := (\<lambda>path flags mode. if path = RESULT_FILE then dev_open else sys_open base path flags mode),
     sys_write := dev_write K, sys_read := dev_read K, sys_close := dev_close,
     sys_malloc := heap_malloc, sys_free := heap_free, sys_recv := sock_recv, sys_send := sock_send,
     sys_accept := sock_accept, sys_errno := (\<lambda>w. errno (world w)),
     sys_clock := clock_read, sys_nanosleep := clock_sleep\<rparr>"

section \<open>View and invariant\<close>

definition sys_view :: "'e system globals \<Rightarrow> view" where
  "sys_view w = \<lparr>v_dev = drv_abs (drv (world w)), v_pos = (\<lambda>fd. map_option (unat \<circ> snd) (fds (world w) fd)),
     v_inbox = rx (world w), v_outbox = tx (world w), v_sockets = socks (world w),
     v_allocs = allocs (world w), v_locked = result_file_mutex w\<rparr>"

definition fds_ok :: "'e system \<Rightarrow> bool" where
  "fds_ok s \<longleftrightarrow>
     (\<forall>fd filp pos. fds s fd = Some (filp, pos) \<longrightarrow>
        private_data filp = Some AESD_DEVICE \<and> fd < int (next_fd s) \<and> fd \<notin> socks s) \<and>
     (\<forall>fd \<in> socks s. fd < int (next_fd s)) \<and> (\<forall>a \<in> allocs s. a < next_addr s)"

definition sys_safe :: "'e system globals \<Rightarrow> bool" where
  "sys_safe w \<longleftrightarrow> drv_safe (drv (world w)) \<and> fds_ok (world w)"

definition sys_good :: "'e system globals \<Rightarrow> bool" where
  "sys_good w \<longleftrightarrow> drv_inv (drv (world w)) \<and> fds_ok (world w)"

lemmas sys_defs = sys_view_def sys_safe_def sys_good_def moves_def set_world_def

lemma read_positive: "n \<le> max_rw_count \<Longrightarrow> \<not> sint (of_nat n :: ssize_t) < 0"
proof -
  assume n: "n \<le> max_rw_count"
  then have "unat (of_nat n :: ssize_t) = n" by (intro unat_of_nat_size_t) (simp add: max_rw_count_def)
  then show ?thesis using n by (simp add: sint_eq_int_unat max_rw_count_def)
qed

lemma fds_okD:
  assumes "fds_ok s"
  shows "fds s fd = Some (filp, pos) \<Longrightarrow> private_data filp = Some AESD_DEVICE"
    and "fds s fd = Some (filp, pos) \<Longrightarrow> fd < int (next_fd s)"
    and "fds s fd = Some (filp, pos) \<Longrightarrow> fd \<notin> socks s"
    and "fd \<in> socks s \<Longrightarrow> fd < int (next_fd s)" and "a \<in> allocs s \<Longrightarrow> a < next_addr s"
  using assms unfolding fds_ok_def by blast+

lemma fds_ok_fresh:
  assumes "fds_ok s"
  shows "fds s (int (next_fd s)) = None" and "int (next_fd s) \<notin> socks s" and "next_addr s \<notin> allocs s"
  using fds_okD [OF assms] by (metis less_irrefl not_None_eq surj_pair)+

lemma fds_ok_open:
  assumes "fds_ok s" and "private_data filp = Some AESD_DEVICE"
  shows "fds_ok (s\<lparr>fds := (fds s)(int (next_fd s) \<mapsto> (filp, p)), next_fd := Suc (next_fd s)\<rparr>)"
  unfolding fds_ok_def
  using fds_ok_fresh(2) [OF assms(1)] assms(2)
  by (auto dest: fds_okD [OF assms(1)] simp: less_Suc_eq)

lemma fds_ok_simps [simp]:
  "fds_ok (s\<lparr>drv := d\<rparr>) = fds_ok s" "fds_ok (s\<lparr>rx := r\<rparr>) = fds_ok s" "fds_ok (s\<lparr>tx := t\<rparr>) = fds_ok s"
  by (simp_all add: fds_ok_def)

lemma fds_ok_seek:
  assumes "fds_ok s" and "fds s fd = Some (filp, p)"
  shows "fds_ok (s\<lparr>drv := d, fds := (fds s)(fd \<mapsto> (filp, p'))\<rparr>)"
  using assms(2) unfolding fds_ok_def by (auto dest: fds_okD [OF assms(1)])

lemma fds_ok_close:
  assumes "fds_ok s"
  shows "fds_ok (s\<lparr>fds := (fds s)(fd := None)\<rparr>)" and "fds_ok (s\<lparr>socks := socks s - {fd}\<rparr>)"
    and "fds_ok (s\<lparr>allocs := allocs s - {a}\<rparr>)"
  unfolding fds_ok_def by (auto dest: fds_okD [OF assms] split: if_splits)

lemma fds_ok_malloc:
  assumes "fds_ok s"
  shows "fds_ok (s\<lparr>allocs := insert (next_addr s) (allocs s), next_addr := Suc (next_addr s)\<rparr>)"
  unfolding fds_ok_def by (auto dest: fds_okD [OF assms])

section \<open>The laws of the device file\<close>

lemma dev_open_law:
  assumes "sys_safe w"
  shows "\<exists>fd w'. dev_open w = returns (fd, w') \<and> v_pos (sys_view w) fd = None \<and>
    moves sys_view sys_safe sys_good (\<lambda>v. v\<lparr>v_pos := (v_pos v)(fd \<mapsto> 0)\<rparr>) w w'"
proof -
  have ok: "fds_ok (world w)" using assms by (simp add: sys_safe_def)
  show ?thesis
    using assms fds_ok_fresh(1) [OF ok] fds_ok_open [OF ok]
    by (auto simp: dev_open_def aesd_open_def sys_defs Let_def fun_eq_iff)
qed

lemma dev_write_law:
  assumes K: "kernel_ok K" and safe: "sys_safe w" and fd: "v_pos (sys_view w) fd = Some p"
    and len: "length d \<le> max_rw_count"
  shows "\<exists>r p' a w'. dev_write K fd d w = returns (r, w') \<and> sys_safe w' \<and>
    sys_view w' = (sys_view w)\<lparr>v_dev := a, v_pos := (v_pos (sys_view w))(fd \<mapsto> p')\<rparr> \<and>
    (sys_good w \<longrightarrow> r = of_nat (length d) \<longrightarrow> sys_good w' \<and> a = spec_write d (v_dev (sys_view w)))"
proof -
  let ?s = "drv (world w)" and ?n = "of_nat (length d) :: size_t"
  obtain filp pos where f: "fds (world w) fd = Some (filp, pos)" using fd by (auto simp: sys_view_def)
  have ok: "fds_ok (world w)" and ds: "drv_safe ?s" using safe by (simp_all add: sys_safe_def)
  have pd: "private_data filp = Some AESD_DEVICE" using fds_okD(1) [OF ok f] .
  have n: "unat ?n = length d" using len by (intro unat_of_nat_size_t) (simp add: max_rw_count_def)
  then have bound: "unat ?n \<le> max_rw_count" using len by simp
  obtain ret pos' s' where wr: "aesd_write K filp d ?n pos ?s = Inr (ret, pos', s')" and s': "drv_safe s'"
    and good: "drv_inv ?s \<Longrightarrow> (if sint ret < 0 then - 1 else ret) = ?n \<Longrightarrow>
       drv_inv s' \<and> drv_abs s' = spec_write d (drv_abs ?s)"
    using K ds pd bound
  proof (cases rule: aesd_write_outcome [where buf = d and f_pos = pos])
    case (nomem s')
    have "sint (- ENOMEM) < 0" by (simp add: ENOMEM_def)
    moreover have "- 1 \<noteq> ?n" using n len by (auto simp: word_unat_eq_iff max_rw_count_def)
    ultimately show thesis using nomem by (intro that [of "- ENOMEM" pos s']) simp_all
  next
    case (written r s')
    have "unat (?n - r) \<le> max_rw_count"
      using written(2) n len by (simp add: unat_sub word_le_nat_alt)
    then have "\<not> sint (?n - r) < 0" using read_positive [of "unat (?n - r)"] by simp
    then show thesis
      using written received_all [OF len]
      by (intro that [of "?n - r" "pos + (?n - r)" s']) (auto simp: drv_inv_def)
  qed
  show ?thesis
    using f wr s' good fds_ok_seek [OF ok f] safe
    by (intro exI [of _ "if sint ret < 0 then - 1 else ret"] exI [of _ "unat pos'"] exI [of _ "drv_abs s'"])
      (auto simp: dev_write_def sys_defs fun_eq_iff)
qed

lemma concat_take_bound:
  assumes "k < length L"
  shows "length (concat (take k L)) + length (L ! k) \<le> length (concat L)"
proof -
  have "concat L = concat (take k L) @ L ! k @ concat (drop (Suc k) L)"
    using assms by (metis concat.simps(2) concat_append id_take_nth_drop)
  then show ?thesis by simp
qed

text \<open>
  At the start of a stored line, or at the end of the data, the driver delivers the line, as far
  as it fits, and moves the position behind what it delivered.
\<close>

lemma aesd_read_line:
  assumes K: "kernel_ok K" "copies_complete K" and s: "drv_safe s" "private_data filp = Some AESD_DEVICE"
    and k: "k \<le> length (spec_log (drv_abs s))"
    and pos: "unat pos = length (concat (take k (spec_log (drv_abs s))))"
    and out: "out = (if k < length (spec_log (drv_abs s)) then take (unat n) (spec_log (drv_abs s) ! k) else [])"
  obtains pos' s' where "aesd_read K filp n pos s = Inr (of_nat (length out), out, pos', s')"
    and "unat pos' = unat pos + length out" and "drv_safe s'" and "drv_abs s' = drv_abs s"
    and "drv_inv s \<longrightarrow> drv_inv s'"
proof -
  let ?L = "spec_log (drv_abs s)"
  have dev: "dev_safe (blocks (kmem s)) (circular_buffer (aesd_device s)) (staging s)"
    using s(1) by (simp add: drv_safe_def)
  have total: "length (concat ?L) < 2 ^ 64"
    using drv_total_bytes [OF dev] by (simp add: drv_abs_def length_concat)
  from K(1) s show thesis
  proof (cases rule: aesd_read_outcome [where count = n and f_pos = pos])
    case eof
    have "length (concat ?L) \<le> unat pos" using eof(1) locate_None_iff by (simp add: length_concat)
    then have "length (?L ! k) = 0" if "k < length ?L"
      using pos concat_take_bound [OF that] by linarith
    then have "out = []" by (simp add: out)
    with eof s(1) show thesis by (intro that [of pos s]) simp_all
  next
    case (data k' j m s')
    have kj: "k' < length ?L" "j < length (?L ! k')" "unat pos = length (concat (take k' ?L)) + j"
      using locate_SomeD [OF data(1)] by (auto simp: length_concat take_map)
    then have "unat pos < length (concat ?L)" using concat_take_bound [OF kj(1)] by simp
    then have kl: "k < length ?L" using pos k by (cases "k = length ?L") simp_all
    have "0 < length (?L ! k)"
      using s(1) kl by (auto simp: drv_abs_def drv_safe_def dev_safe_def list_all_iff owns_size dest!: owns_bounds)
    then have "locate (map length ?L) (unat pos) = Some (k, 0)"
      using locate_hit [of k "map length ?L" 0] kl pos by (simp add: length_concat take_map)
    with data(1) have kk: "k' = k" by simp
    with data(3) K(2) have m: "take m (?L ! k) = out" "m = length out"
      using kl by (simp_all add: out min_def)
    have "unat pos + length out \<le> length (concat ?L)"
      using concat_take_bound [OF kl] pos kl by (simp add: out)
    then have "unat (pos + of_nat (length out)) = unat pos + length out"
      using total by (simp add: unat_add_size_t unat_of_nat_size_t)
    moreover have "drv_abs s' = drv_abs s" "drv_safe s'" "drv_inv s \<longrightarrow> drv_inv s'"
      using data(5,6) s(1) by (simp_all add: drv_abs_def drv_safe_def drv_inv_def)
    ultimately show thesis
      using data(4) kk m by (intro that [of "pos + of_nat (length out)" s']) simp_all
  qed
qed

lemma dev_read_law:
  assumes K: "kernel_ok K" "copies_complete K" and safe: "sys_safe w"
    and fd: "v_pos (sys_view w) fd = Some (length (concat (take k (v_log (sys_view w)))))"
    and k: "k \<le> length (v_log (sys_view w))" and n: "unat n \<le> max_rw_count"
    and out: "out = (if k < length (v_log (sys_view w)) then take (unat n) (v_log (sys_view w) ! k) else [])"
  shows "\<exists>w'. dev_read K fd n w = returns ((of_nat (length out), out), w') \<and>
    moves sys_view sys_safe sys_good
      (\<lambda>v. v\<lparr>v_pos := (v_pos v)(fd \<mapsto> length (concat (take k (v_log v))) + length out)\<rparr>) w w'"
proof -
  let ?s = "drv (world w)"
  have L: "v_log (sys_view w) = spec_log (drv_abs ?s)" by (simp add: sys_view_def)
  obtain filp pos where f: "fds (world w) fd = Some (filp, pos)" and p: "unat pos = length (concat (take k (v_log (sys_view w))))"
    using fd by (auto simp: sys_view_def)
  have ok: "fds_ok (world w)" and ds: "drv_safe ?s" using safe by (simp_all add: sys_safe_def)
  have pd: "private_data filp = Some AESD_DEVICE" using fds_okD(1) [OF ok f] .
  obtain pos' s' where rd: "aesd_read K filp n pos ?s = Inr (of_nat (length out), out, pos', s')"
    and p': "unat pos' = unat pos + length out" and s': "drv_safe s'" "drv_abs s' = drv_abs ?s"
    and g: "drv_inv ?s \<longrightarrow> drv_inv s'"
    using aesd_read_line [OF K ds pd k [unfolded L] p [unfolded L] out [unfolded L]] .
  have "length out \<le> max_rw_count" using n by (simp add: out min.coboundedI2)
  then have "\<not> sint (of_nat (length out) :: ssize_t) < 0" by (rule read_positive)
  with f rd p p' s' g show ?thesis
    using fds_ok_seek [OF ok f] by (auto simp: dev_read_def sys_defs fun_eq_iff)
qed

lemma dev_close_law:
  assumes "sys_safe w"
  shows "v_pos (sys_view w) fd = Some p \<Longrightarrow> \<exists>w'. dev_close fd w = returns (0, w') \<and>
      moves sys_view sys_safe sys_good (\<lambda>v. v\<lparr>v_pos := (v_pos v)(fd := None)\<rparr>) w w'"
    and "fd \<in> v_sockets (sys_view w) \<Longrightarrow> \<exists>r w'. dev_close fd w = returns (r, w') \<and>
      moves sys_view sys_safe sys_good (\<lambda>v. v\<lparr>v_sockets := v_sockets v - {fd}\<rparr>) w w'"
proof -
  have ok: "fds_ok (world w)" using assms by (simp add: sys_safe_def)
  show "\<exists>w'. dev_close fd w = returns (0, w') \<and>
      moves sys_view sys_safe sys_good (\<lambda>v. v\<lparr>v_pos := (v_pos v)(fd := None)\<rparr>) w w'"
    if "v_pos (sys_view w) fd = Some p"
    using that assms fds_ok_close(1) [OF ok, of fd]
    by (auto simp: dev_close_def aesd_release_def sys_defs fun_eq_iff)
  show "\<exists>r w'. dev_close fd w = returns (r, w') \<and>
      moves sys_view sys_safe sys_good (\<lambda>v. v\<lparr>v_sockets := v_sockets v - {fd}\<rparr>) w w'"
    if "fd \<in> v_sockets (sys_view w)"
  proof -
    have "fds (world w) fd = None"
      using that fds_okD(3) [OF ok] by (cases "fds (world w) fd") (auto simp: sys_view_def)
    then show ?thesis
      using that assms fds_ok_close(2) [OF ok, of fd] by (auto simp: dev_close_def sys_defs)
  qed
qed

lemma owns_nonempty: "owns B e \<Longrightarrow> data_of B e \<noteq> []"
  by (auto elim!: ownsE simp: data_of_def)

lemma stored_lines_nonempty: "sys_safe w \<Longrightarrow> [] \<notin> set (v_log (sys_view w))"
  using owns_nonempty by (fastforce simp: sys_defs drv_abs_def drv_safe_def dev_safe_def list_all_iff)

section \<open>The laws of sockets and buffers\<close>

lemma sock_recv_law:
  assumes "sys_safe w" and "fd \<in> v_sockets (sys_view w)" and "v_inbox (sys_view w) fd = c # cs" and "length c \<le> unat n"
  shows "\<exists>w'. sock_recv fd n w = returns ((of_nat (length c), c), w') \<and>
    moves sys_view sys_safe sys_good (\<lambda>v. v\<lparr>v_inbox := (v_inbox v)(fd := cs)\<rparr>) w w'"
  using assms by (simp add: sock_recv_def sys_defs)

lemma sock_send_law:
  assumes "sys_safe w" and "fd \<in> v_sockets (sys_view w)"
  shows "\<exists>r s w'. sock_send fd d w = returns (r, w') \<and> (r = of_nat (length d) \<longrightarrow> s = d) \<and>
    moves sys_view sys_safe sys_good (\<lambda>v. v\<lparr>v_outbox := (v_outbox v)(fd := v_outbox v fd @ s)\<rparr>) w w'"
  using assms by (auto simp: sock_send_def sys_defs)

lemma heap_malloc_law:
  assumes "sys_safe w"
  shows "\<exists>a bs w'. heap_malloc n w = returns (Some (a, bs), w') \<and> length bs = unat n \<and> a \<notin> v_allocs (sys_view w) \<and>
    moves sys_view sys_safe sys_good (\<lambda>v. v\<lparr>v_allocs := insert a (v_allocs v)\<rparr>) w w'"
proof -
  have ok: "fds_ok (world w)" using assms by (simp add: sys_safe_def)
  show ?thesis
    using assms fds_ok_fresh(3) [OF ok] fds_ok_malloc [OF ok] by (simp add: heap_malloc_def sys_defs Let_def)
qed

lemma heap_free_law:
  assumes "sys_safe w" and "a \<in> v_allocs (sys_view w)"
  shows "\<exists>w'. heap_free a w = returns ((), w') \<and>
    moves sys_view sys_safe sys_good (\<lambda>v. v\<lparr>v_allocs := v_allocs v - {a}\<rparr>) w w'"
  using assms fds_ok_close(3) [of "world w" a] by (simp add: heap_free_def sys_defs)

section \<open>The system keeps the server's contract\<close>

lemma aesd_device_file:
  assumes "kernel_ok K" and "copies_complete K"
  shows "device_file (aesd_posix K base) RESULT_FILE sys_view sys_safe sys_good"
proof (rule device_file.intro, goal_cases)
  case (1 w flags mode)
  then show ?case using dev_open_law by (simp add: aesd_posix_def)
next
  case (2 w fd p d)
  then show ?case using dev_write_law [OF assms(1)] by (simp add: aesd_posix_def)
next
  case (3 w fd k n out)
  then show ?case using dev_read_law [OF assms 3(1-4)] by (simp add: aesd_posix_def)
next
  case (4 w fd p)
  then show ?case using dev_close_law(1) by (simp add: aesd_posix_def)
next
  case (5 w)
  then show ?case by (rule stored_lines_nonempty)
qed

lemma aesd_client_sockets: "client_sockets (aesd_posix K base) sys_view sys_safe sys_good"
proof (rule client_sockets.intro, goal_cases)
  case (1 w fd c cs n)
  then show ?case using sock_recv_law by (simp add: aesd_posix_def)
next
  case (2 w fd d)
  then show ?case using sock_send_law by (simp add: aesd_posix_def)
next
  case (3 w fd)
  then show ?case using dev_close_law(2) by (simp add: aesd_posix_def)
qed

lemma aesd_process_memory: "process_memory (aesd_posix K base) sys_view sys_safe sys_good"
proof (rule process_memory.intro, goal_cases)
  case (1 w n)
  then show ?case using heap_malloc_law by (simp add: aesd_posix_def)
next
  case (2 w a)
  then show ?case using heap_free_law by (simp add: aesd_posix_def)
qed (simp_all add: sys_view_def sys_safe_def sys_good_def)

lemma aesd_line_server:
  assumes "kernel_ok K" and "copies_complete K"
  shows "line_server (aesd_posix K base) RESULT_FILE sys_view sys_safe sys_good"
  by (intro line_server.intro aesd_device_file aesd_client_sockets aesd_process_memory assms)

interpretation aesd: line_server "aesd_posix ref_kernel base" RESULT_FILE sys_view sys_safe sys_good
  for base
  by (rule aesd_line_server [OF ref_kernel_ok ref_copies_complete])

interpretation aesd_clock: monotonic_clock "aesd_posix K base" "\<lambda>w. clock_ns (world w)"
  for K base
proof (unfold_locales, goal_cases)
  case (1 w)
  show ?case
    by (simp add: aesd_posix_def clock_read_def timespec_norm_def nanoseconds_def div_mult_mod_eq)
next
  case (2 server_fd w)
  show ?case
    by (cases "backlog (world w)") (simp_all add: aesd_posix_def sock_accept_def set_world_def Let_def)
next
  case (3 w)
  show ?case by (simp add: aesd_posix_def clock_sleep_def set_world_def accept_delay_def nanoseconds_def)
qed

end
