(* ===== verification/Server_Spec.thy ===== *)
theory Server_Spec
  imports Device_Backend
begin

text \<open>
  Properties of the server's operations: on the installed system, where the result file is the
  character device, and on any system for the error paths.
\<close>

section \<open>A concrete system\<close>

text \<open>
  A freshly loaded driver, an open connection on descriptor 4 whose client has sent one line, and
  a number of further connections that wait to be accepted.
\<close>

definition ex_world :: "bool list \<Rightarrow> byte list list list \<Rightarrow> ref_env system" where
  "ex_world fails waiting = \<lparr>drv = ex_driver fails, fds = Map.empty, next_fd = 5, socks = {4},
     rx = (\<lambda>_. [])(4 := [[104, 105, 10]]), tx = (\<lambda>_. []), allocs = {}, next_addr = 0,
     backlog = waiting, errno = 0, clock_ns = 0\<rparr>"

definition ex_posix :: "ref_env system posix" where
  "ex_posix = aesd_posix ref_kernel no_posix"

definition ex_globals :: "bool list \<Rightarrow> byte list list list \<Rightarrow> ref_env system globals" where
  "ex_globals fails waiting = \<lparr>is_terminated = False, timestamp_semaphore = 0, result_file_mutex = False,
     world = ex_world fails waiting\<rparr>"

lemma ex_globals_good: "sys_good (ex_globals fails waiting)" "sys_safe (ex_globals fails waiting)"
  using ex_driver_inv(1,2) [of fails]
  by (simp_all add: sys_good_def sys_safe_def ex_globals_def ex_world_def fds_ok_def)

lemma ex_globals_simps:
  "world (ex_globals fails waiting) = ex_world fails waiting"
  "\<not> result_file_mutex (ex_globals fails waiting)"
  "drv (ex_world fails waiting) = ex_driver fails" "socks (ex_world fails waiting) = {4}"
  "rx (ex_world fails waiting) 4 = [[104, 105, 10]]" "tx (ex_world fails waiting) = (\<lambda>_. [])"
  by (simp_all add: ex_globals_def ex_world_def)

lemma v_pos_dom: "dom (v_pos (sys_view w)) = dom (fds (world w))"
  by (auto simp: sys_view_def)

section \<open>Serving a client\<close>

lemma aesd_worker_run:
  assumes "kernel_ok K" and "copies_complete K" and "sys_good w" and "\<not> result_file_mutex w"
    and "client_fd arg \<in> socks (world w)" and "rx (world w) (client_fd arg) = cs @ c # rest"
    and "list_all (\<lambda>c. length c = 1024) cs" and "length c < 1024" and "length buf = 1024"
    and "D = fold spec_write (cs @ [c]) (drv_abs (drv (world w)))"
    and "list_all (\<lambda>l. length l \<le> 32768) (spec_log D)"
  shows "\<exists>td w'. data_transfer_worker (aesd_posix K base) arg buf w = returns (td, w') \<and>
    sys_safe w' \<and> \<not> result_file_mutex w' \<and> socks (world w') = socks (world w) - {client_fd arg} \<and>
    (thread_status td = SUCCEEDED \<or> thread_status td = FAILED) \<and>
    (thread_status td = SUCCEEDED \<longrightarrow> sys_good w' \<and> drv_abs (drv (world w')) = D \<and>
       dom (fds (world w')) = dom (fds (world w)) \<and> allocs (world w') = allocs (world w) \<and>
       tx (world w') = (tx (world w))(client_fd arg := tx (world w) (client_fd arg) @ concat (spec_log D)))"
proof -
  have "sys_safe w" using assms(3) by (simp add: sys_good_def sys_safe_def drv_inv_def)
  from line_server.worker_law [OF aesd_line_server [OF assms(1,2)] refl this assms(3) _ _ _ assms(7-9), of arg rest D base]
  obtain td w' where w': "data_transfer_worker (aesd_posix K base) arg buf w = returns (td, w')" "sys_safe w'"
      "\<not> v_locked (sys_view w')" "v_sockets (sys_view w') = v_sockets (sys_view w) - {client_fd arg}"
      "thread_status td = SUCCEEDED \<or> thread_status td = FAILED"
    and ok: "thread_status td = SUCCEEDED \<longrightarrow> sys_good w' \<and> v_dev (sys_view w') = D \<and>
       v_pos (sys_view w') = v_pos (sys_view w) \<and> v_allocs (sys_view w') = v_allocs (sys_view w) \<and>
       v_outbox (sys_view w') = (v_outbox (sys_view w))(client_fd arg := v_outbox (sys_view w) (client_fd arg) @ concat (spec_log D))"
    using assms(4-6,10,11) by (auto simp: sys_view_def)
  have "dom (fds (world w')) = dom (fds (world w))" if "v_pos (sys_view w') = v_pos (sys_view w)"
    using that by (metis v_pos_dom)
  with w' ok show ?thesis by (auto simp: sys_view_def)
qed



text \<open>
  Receiving on the installed system never faults; with result 0 the device holds
  what it held followed by the client's segments, each as one write, the segments are consumed
  and no descriptor is left open.
\<close>

lemma receive_and_write_data_stores:
  assumes "kernel_ok K" and "copies_complete K" and "sys_good w" and "cfd \<in> socks (world w)"
    and "rx (world w) cfd = cs @ c # rest" and "list_all (\<lambda>c. length c = 1024) cs" and "length c < 1024"
    and "length buf = 1024"
  shows "\<exists>r w'. socket_client_receive_and_write_data (aesd_posix K base) RESULT_FILE cfd buf w = returns (r, w') \<and>
    sys_safe w' \<and> (r = 0 \<or> r = - 1) \<and>
    (r = 0 \<longrightarrow> sys_good w' \<and> drv_abs (drv (world w')) = fold spec_write (cs @ [c]) (drv_abs (drv (world w))) \<and>
       rx (world w') = (rx (world w))(cfd := rest) \<and> dom (fds (world w')) = dom (fds (world w)))"
proof -
  have "sys_safe w" using assms(3) by (simp add: sys_good_def sys_safe_def drv_inv_def)
  then obtain r a ps ib w' where w': "receive_loop (aesd_posix K base) RESULT_FILE cfd buf w = returns (r, w')"
      "sys_safe w'" "r = 0 \<or> r = - 1" and v: "sys_view w' = (sys_view w)\<lparr>v_dev := a, v_pos := ps, v_inbox := ib\<rparr>"
    and ok: "r = 0 \<longrightarrow> sys_good w \<longrightarrow> sys_good w' \<and> a = fold spec_write (cs @ [c]) (v_dev (sys_view w)) \<and>
       ps = v_pos (sys_view w) \<and> ib = (v_inbox (sys_view w))(cfd := rest)"
    using line_server.receive_law [OF aesd_line_server [OF assms(1,2)] assms(6,7), of w cfd rest buf base] assms(4,5,8)
    by (simp add: sys_view_def) blast
  have "v_dev (sys_view w') = a" "v_pos (sys_view w') = ps" "v_inbox (sys_view w') = ib" by (simp_all add: v)
  then have "drv_abs (drv (world w')) = a" "rx (world w') = ib" "dom (fds (world w')) = dom ps"
    using v_pos_dom [of w'] by (simp_all add: sys_view_def)
  moreover have "v_dev (sys_view w) = drv_abs (drv (world w))" "v_inbox (sys_view w) = rx (world w)"
    by (simp_all add: sys_view_def)
  ultimately show ?thesis
    using w' ok assms(3) v_pos_dom [of w] by (simp add: socket_client_receive_and_write_data_def)
qed

text \<open>
  Sending the device back to a client never faults and changes nothing the device
  stores; with result 0 the client has received the concatenation of all stored lines, whatever
  their number and sizes (up to the 32768 bytes of the send buffer), and neither a descriptor nor
  the buffer is left over.
\<close>

lemma send_file_sends_all_lines:
  assumes "kernel_ok K" and "copies_complete K" and "sys_safe w" and "cfd \<in> socks (world w)"
    and "list_all (\<lambda>l. length l \<le> 32768) (spec_log (drv_abs (drv (world w))))"
  shows "\<exists>r w'. socket_client_send_file (aesd_posix K base) RESULT_FILE cfd w = returns (r, w') \<and>
    sys_safe w' \<and> drv_abs (drv (world w')) = drv_abs (drv (world w)) \<and> (r = 0 \<or> r = - 1) \<and>
    (r = 0 \<longrightarrow> tx (world w') cfd = tx (world w) cfd @ concat (spec_log (drv_abs (drv (world w)))) \<and>
       dom (fds (world w')) = dom (fds (world w)) \<and> allocs (world w') = allocs (world w))"
proof -
  have "list_all (\<lambda>l. length l \<le> 32768) (v_log (sys_view w))" "cfd \<in> v_sockets (sys_view w)"
    using assms(4,5) by (simp_all add: sys_view_def)
  from line_server.send_file_law [OF aesd_line_server [OF assms(1,2), of base] this(1) assms(3) this(2)] obtain r ps ob al w' where
    w': "socket_client_send_file (aesd_posix K base) RESULT_FILE cfd w = returns (r, w')" "r = 0 \<or> r = - 1"
    and m: "moves sys_view sys_safe sys_good (\<lambda>v. v\<lparr>v_pos := ps, v_outbox := ob, v_allocs := al\<rparr>) w w'"
    and ok: "r = 0 \<longrightarrow> ps = v_pos (sys_view w) \<and> al = v_allocs (sys_view w) \<and>
       ob = (v_outbox (sys_view w))(cfd := v_outbox (sys_view w) cfd @ concat (v_log (sys_view w)))"
    by (elim exE conjE) (rule that)
  have v: "v_dev (sys_view w') = v_dev (sys_view w)" "v_pos (sys_view w') = ps" "v_outbox (sys_view w') = ob"
      "v_allocs (sys_view w') = al"
    using movesD(1) [OF m] by simp_all
  then have "dom (fds (world w')) = dom ps" using v_pos_dom [of w'] by simp
  with v w' ok movesD(2) [OF m] v_pos_dom [of w] show ?thesis by (auto simp: sys_view_def)
qed

section \<open>Error paths\<close>

text \<open>
  On any system, appending when the write fails or is partial returns -1 in the
  very state the write left: the descriptor that was opened is never closed.
\<close>

lemma append_to_file_failure_keeps_descriptor:
  assumes "sys_open S path [O_WRONLY, O_APPEND, O_CREAT] 420 w = returns (fd, w1)"
    and "unat n \<le> length buf" and "sys_write S fd (take (unat n) buf) w1 = returns (r, w2)" and "r \<noteq> n"
  shows "append_to_file S path buf n w = returns (- 1, w2)"
  using assms by (simp add: append_to_file_def bindP_def buffer_bytes_def)

lemma append_to_file_failure_leaks:
  "\<exists>w'. append_to_file ex_posix RESULT_FILE [97] 1 (ex_globals [True] []) = returns (- 1, w') \<and> dom (fds (world w')) = {5}"
proof -
  let ?w = "ex_globals [True] []"
  have "\<exists>w1 w2. sys_open ex_posix RESULT_FILE [O_WRONLY, O_APPEND, O_CREAT] 420 ?w = returns (5, w1) \<and>
      sys_write ex_posix 5 (take (unat (1 :: size_t)) [97]) w1 = returns (- 1, w2) \<and> dom (fds (world w2)) = {5}"
    by (simp add: ex_posix_def aesd_posix_def dev_open_def dev_write_def ex_globals_def ex_world_def set_world_def
        aesd_open_def kernel_eval driver_eval ENOMEM_def)
  then obtain w1 w2 where "sys_open ex_posix RESULT_FILE [O_WRONLY, O_APPEND, O_CREAT] 420 ?w = returns (5, w1)"
    and "sys_write ex_posix 5 (take (unat (1 :: size_t)) [97]) w1 = returns (- 1, w2)" and "dom (fds (world w2)) = {5}" by blast
  with append_to_file_failure_keeps_descriptor [of ex_posix RESULT_FILE ?w 5 w1 1 "[97]" "- 1" w2] show ?thesis by auto
qed

text \<open>
  Property C24. On any system, a failing read while the file is sent back makes the server send
  from beyond its buffer: the result -1 is used as a length.
\<close>

theorem send_file_read_error_overruns:
  assumes "sys_open S path [O_RDONLY] 0 w = returns (fd, w1)"
    and "sys_malloc S line_len w1 = returns (Some (addr, line), w2)" and "length line = 32768"
    and "sys_read S fd line_len w2 = returns ((- 1, []), w3)"
  shows "socket_client_send_file S path cfd w = Some (Inl OutOfBounds)"
proof -
  have "send_loop S fd cfd line (- 1) w3 = Some (Inl OutOfBounds)"
    using assms(3) by (subst send_loop.simps)
      (simp add: socket_client_send_line_def bindP_def buffer_bytes_def)
  then show ?thesis
    using assms(1,2,4) by (simp add: socket_client_send_file_def bindP_def store_bytes_def)
qed

theorem send_file_read_error_overruns_witness:
  "socket_client_send_file (ex_posix\<lparr>sys_read := \<lambda>_ _. retP (- 1, [])\<rparr>) RESULT_FILE 4 (ex_globals [] []) = Some (Inl OutOfBounds)"
proof -
  let ?S = "ex_posix\<lparr>sys_read := \<lambda>_ _. retP (- 1, [])\<rparr>"
  have "\<exists>fd w1. sys_open ?S RESULT_FILE [O_RDONLY] 0 (ex_globals [] []) = returns (fd, w1)"
    by (simp add: ex_posix_def aesd_posix_def dev_open_def Let_def aesd_open_def)
  then obtain fd w1 where op: "sys_open ?S RESULT_FILE [O_RDONLY] 0 (ex_globals [] []) = returns (fd, w1)" by blast
  have "\<exists>addr line w2. sys_malloc ?S line_len w1 = returns (Some (addr, line), w2) \<and> length line = 32768"
    by (simp add: ex_posix_def aesd_posix_def heap_malloc_def Let_def line_len_def)
  then obtain addr line w2 where "sys_malloc ?S line_len w1 = returns (Some (addr, line), w2)" "length line = 32768" by blast
  from send_file_read_error_overruns [OF op this, of w2 4] show ?thesis by simp
qed

section \<open>Accepting connections\<close>




section \<open>Termination\<close>

text \<open>
  Waiting on the semaphore: with a positive count the call returns and takes one; a signal
  handler may run meanwhile, so the termination flag may become set but is never cleared.
\<close>

definition sem_wait_ok :: "'w posix \<Rightarrow> bool" where
  "sem_wait_ok S \<longleftrightarrow> (\<forall>w. 0 < timestamp_semaphore w \<longrightarrow>
     (\<exists>w'. sys_sem_wait S w = returns ((), w') \<and> (is_terminated w \<longrightarrow> is_terminated w')))"

text \<open>
  Property C27. Once the handler of a termination signal has run, the timestamp worker that
  waits on the semaphore ends without another round, whatever state the process was in, in both builds.
\<close>

theorem sigint_ends_timestamp_worker:
  assumes "sem_wait_ok S"
  shows "\<exists>w'. log_timestamp_worker S use_device (sigint_handler w) = returns ((), w') \<and> is_terminated w'"
proof -
  have "0 < timestamp_semaphore (sigint_handler w)" and "is_terminated (sigint_handler w)"
    by (simp_all add: sigint_handler_def sem_post_def config_set_is_terminated_def)
  with assms obtain w' where "sys_sem_wait S (sigint_handler w) = returns ((), w')" "is_terminated w'"
    unfolding sem_wait_ok_def by blast
  then show ?thesis
    by (simp add: log_timestamp_worker_def bindP_def log_timestamp_loop.simps [of S use_device w'] config_is_terminated_def)
qed

definition ex_sem_wait :: "('w, unit) proc" where
  "ex_sem_wait w = (if 0 < timestamp_semaphore w then returns ((), w\<lparr>timestamp_semaphore := timestamp_semaphore w - 1\<rparr>) else None)"

theorem sigint_ends_timestamp_worker_witness:
  "\<exists>w'. log_timestamp_worker (no_posix\<lparr>sys_sem_wait := ex_sem_wait\<rparr>) 1 (sigint_handler (ex_globals [] [])) = returns ((), w')"
  using sigint_ends_timestamp_worker [of "no_posix\<lparr>sys_sem_wait := ex_sem_wait\<rparr>" 1 "ex_globals [] []"]
  by (auto simp: sem_wait_ok_def ex_sem_wait_def)

end
