(* ===== verification/Application.thy ===== *)
theory Application
  imports Server_Main Server_Spec
begin

text \<open>
  Properties of the main thread: its list of workers stays a list, every node it allocates is
  freed again, and it stops when told to.
\<close>

section \<open>What the main thread relies on\<close>

text \<open>
  Other threads change no link of the list and let nodes progress (the contract of \<open>join_ok\<close>); a
  new node is at an address that is not in use.
\<close>

definition interferes :: "'w thread_list \<Rightarrow> 'w thread_list \<Rightarrow> bool" where
  "interferes h h' \<longleftrightarrow> slh_first h' = slh_first h \<and> same_links (node_heap h) (node_heap h') \<and>
     (\<forall>x. progressed (payload h x) (payload h' x))"

definition thread_api_ok :: "'w thread_api \<Rightarrow> bool" where
  "thread_api_ok T \<longleftrightarrow> join_ok (th_join T) \<and>
     (\<forall>h. interferes h (th_run T h)) \<and> (\<forall>x h. interferes h (snd (th_create T x h))) \<and>
     (\<forall>h. interferes h (snd (th_malloc T h)) \<and>
        (\<forall>x. fst (th_malloc T h) = Some x \<longrightarrow> node_heap (snd (th_malloc T h)) x = None))"

text \<open>The calls the accept loop makes complete or block, but do not fault.\<close>

definition connections_ok :: "'w posix \<Rightarrow> int \<Rightarrow> bool" where
  "connections_ok S server_fd \<longleftrightarrow>
     (\<forall>w e. socket_client_create_connection S server_fd connection_timeout w \<noteq> Some (Inl e)) \<and>
     (\<forall>fd w e. sys_close S fd w \<noteq> Some (Inl e))"

lemma interferes_dom: "interferes h h' \<Longrightarrow> dom (node_heap h') = dom (node_heap h)"
proof -
  assume "interferes h h'"
  then have "map_option nodes (node_heap h x) = map_option nodes (node_heap h' x)" for x
    by (simp add: interferes_def same_links_def)
  then have "node_heap h x = None \<longleftrightarrow> node_heap h' x = None" for x
    by (metis option.map_disc_iff)
  then show ?thesis by (auto simp: dom_def)
qed

lemma interferes_list: "interferes h h' \<Longrightarrow> is_slist h' xs = is_slist h xs"
  using segment_same_links by (fastforce simp: interferes_def is_slist_def)

section \<open>The list of workers\<close>

text \<open>The list holds exactly the nodes beyond those that were allocated before (\<open>A\<close>).\<close>

definition workers_ok :: "nat set \<Rightarrow> 'w thread_list \<Rightarrow> bool" where
  "workers_ok A h \<longleftrightarrow> (\<exists>xs. is_slist h xs \<and> dom (node_heap h) = A \<union> set xs \<and> A \<inter> set xs = {})"

text \<open>A result of the main thread: it keeps the list in order, or dereferences a null node.\<close>

definition main_ok :: "nat set \<Rightarrow> (fault + int \<times> 'w main_state) option \<Rightarrow> bool" where
  "main_ok A res = (case res of
     None \<Rightarrow> True
   | Some (Inl e) \<Rightarrow> e = NullDeref
   | Some (Inr (r, h)) \<Rightarrow> workers_ok A h \<and> (r = 0 \<or> r = - 1))"

lemma workers_ok_interferes: "interferes h h' \<Longrightarrow> workers_ok A h \<Longrightarrow> workers_ok A h'"
  by (auto simp: workers_ok_def interferes_list interferes_dom)

lemma workers_ok_process [simp]: "workers_ok A (h\<lparr>process := g\<rparr>) = workers_ok A h"
  by (simp add: workers_ok_def is_slist_def)

lemma workers_ok_terminate [simp]: "workers_ok A (terminate h) = workers_ok A h"
  by (simp add: terminate_def)

lemma main_ok_returns: "main_ok A (returns (r, h)) \<longleftrightarrow> workers_ok A h \<and> (r = 0 \<or> r = - 1)"
  by (simp add: main_ok_def)

lemma main_ok_bindT:
  assumes "\<And>e. m = Some (Inl e) \<Longrightarrow> e = NullDeref" and "\<And>x. m = returns x \<Longrightarrow> main_ok A (f x)"
  shows "main_ok A (bindT m f)"
proof (cases m)
  case None
  then show ?thesis by (simp add: main_ok_def)
next
  case (Some r)
  with assms show ?thesis by (cases r) (simp_all add: main_ok_def)
qed

lemma on_process_iff:
  "on_process m h = Some (Inl e) \<longleftrightarrow> m (process h) = Some (Inl e)"
  "on_process m h = returns (x, h') \<longleftrightarrow> (\<exists>g. m (process h) = returns (x, g) \<and> h' = h\<lparr>process := g\<rparr>)"
  unfolding on_process_def
  by (cases "m (process h)", simp, rename_tac r, case_tac r, auto)+

lemma close_ok:
  assumes "connections_ok S server_fd" and "workers_ok A h"
  shows "main_ok A (bindT (on_process (sys_close S fd) h) (\<lambda>(_, h2). returns (- 1, terminate h2)))"
  using assms by (intro main_ok_bindT) (auto simp: on_process_iff connections_ok_def main_ok_def)

lemma join_completed_ok:
  assumes "join_ok J" and "workers_ok A h"
  obtains is_error h' where "slist_join_completed_threads J h = returns (is_error, h')" and "workers_ok A h'"
proof -
  from assms(2) obtain xs where xs: "is_slist h xs" "dom (node_heap h) = A \<union> set xs" "A \<inter> set xs = {}"
    by (auto simp: workers_ok_def)
  obtain is_error h' ys where j: "slist_join_completed_threads J h = returns (is_error, h')" "is_slist h' ys"
    and p: "join_progress h xs (\<lambda>x. status_in h x = FAILED) ys [] is_error h'"
    by (rule join_completed_outcome [OF assms(1) xs(1)])
  from p have "dom (node_heap h') = dom (node_heap h) - (set xs - set ys)" "subseq ys xs"
    by (auto simp: join_progress_def)
  moreover from this(2) have "set ys \<subseteq> set xs" by (auto elim: list_emb_set)
  ultimately have "workers_ok A h'" using j(2) xs(2,3) unfolding workers_ok_def by (intro exI [of _ ys]) auto
  with j(1) show thesis by (rule that)
qed

lemma start_worker_ok:
  assumes T: "thread_api_ok T" and C: "connections_ok S server_fd" and h: "workers_ok A h" and r: "r = 0 \<or> r = - 1"
  shows "main_ok A (start_worker S T fd r h)"
proof (cases "th_malloc T h")
  case (Pair p h1)
  have i1: "interferes h h1" and fresh: "p = Some x \<Longrightarrow> node_heap h1 x = None" for x
    using T Pair unfolding thread_api_ok_def by (metis fst_conv snd_conv)+
  show ?thesis
  proof (cases p)
    case None
    then show ?thesis by (simp add: start_worker_def Pair main_ok_def)
  next
    case (Some x)
    let ?n = "\<lparr>thread_data = \<lparr>client_fd = fd, thread_status = UNITITIALIZED\<rparr>, thread = 0, nodes = None\<rparr>"
    let ?h2 = "h1\<lparr>node_heap := (node_heap h1)(x \<mapsto> ?n)\<rparr>"
    obtain cr tid h3 where cr: "th_create T x ?h2 = ((cr, tid), h3)" by (metis prod.collapse)
    have i3: "interferes ?h2 h3" using T cr unfolding thread_api_ok_def by (metis snd_conv)
    from workers_ok_interferes [OF i1 h] obtain xs where xs: "is_slist h1 xs" "dom (node_heap h1) = A \<union> set xs" "A \<inter> set xs = {}"
      by (auto simp: workers_ok_def)
    have x: "x \<notin> A" "x \<notin> set xs" using fresh [OF Some] xs(2) by auto
    have "is_slist ?h2 xs" using xs(1) x(2) by (simp add: is_slist_def segment_frame)
    then have l3: "is_slist h3 xs" by (simp add: interferes_list [OF i3])
    have d3: "dom (node_heap h3) = insert x (A \<union> set xs)" by (simp add: interferes_dom [OF i3] xs(2))
    then obtain n where n: "node_heap h3 x = Some n" by auto
    show ?thesis
    proof (cases "cr = 0")
      case False
      have "is_slist (h3\<lparr>node_heap := (node_heap h3)(x := None)\<rparr>) xs"
        using l3 x(2) by (simp add: is_slist_def segment_frame del: fun_upd_apply)
      then have "workers_ok A (h3\<lparr>node_heap := (node_heap h3)(x := None)\<rparr>)"
        using d3 x xs(3) unfolding workers_ok_def by (intro exI [of _ xs]) auto
      from close_ok [OF C this, of fd] show ?thesis
        using False n by (simp add: start_worker_def Pair Some cr free_node_def)
    next
      case True
      let ?h4 = "h3\<lparr>node_heap := (node_heap h3)(x \<mapsto> n\<lparr>thread := tid\<rparr>)\<rparr>"
      have l4: "is_slist ?h4 xs" using l3 x(2) by (simp add: is_slist_def segment_frame)
      have n4: "node_heap ?h4 x = Some (n\<lparr>thread := tid\<rparr>)" by simp
      obtain h5 where ins: "SLIST_INSERT_HEAD (Some x) ?h4 = Inr h5" "is_slist h5 (x # xs)" "payload h5 = payload ?h4"
        by (rule slist_insert_lists [OF l4 n4 x(2)])
      have "dom (payload h5) = dom (payload ?h4)" by (simp only: ins(3))
      then have "dom (node_heap h5) = insert x (A \<union> set xs)" using d3 by auto
      with ins(2) x xs(3) have "workers_ok A h5" unfolding workers_ok_def by (intro exI [of _ "x # xs"]) auto
      then show ?thesis
        using True n ins(1) r by (simp add: start_worker_def Pair Some cr deref_def main_ok_def)
    qed
  qed
qed

lemma application_body_ok:
  assumes T: "thread_api_ok T" and C: "connections_ok S server_fd" and h: "workers_ok A h" and r: "r = 0 \<or> r = - 1"
  shows "main_ok A (application_body S T server_fd r h)"
  unfolding application_body_def
proof (rule main_ok_bindT, goal_cases)
  case (1 e)
  then show ?case using C by (simp add: on_process_iff connections_ok_def)
next
  case (2 res)
  obtain code fd h0 where res: "res = ((code, fd), h0)" by (metis prod.collapse)
  have "workers_ok A h0" using 2 h unfolding res by (auto simp: on_process_iff)
  moreover have "interferes h0 (th_run T h0)" and J: "join_ok (th_join T)" using T by (simp_all add: thread_api_ok_def)
  ultimately have h1: "workers_ok A (th_run T h0)" by (simp add: workers_ok_interferes)
  show ?case
  proof (cases "code = 2")
    case True
    obtain is_error h2 where "slist_join_completed_threads (th_join T) (th_run T h0) = returns (is_error, h2)" "workers_ok A h2"
      by (rule join_completed_ok [OF J h1])
    with True r show ?thesis by (simp add: res main_ok_def)
  next
    case False
    then show ?thesis
      using close_ok [OF C h1] start_worker_ok [OF T C h1 r] h1 r by (simp add: res Let_def main_ok_returns)
  qed
qed

lemma application_loop_ok:
  assumes T: "thread_api_ok T" and C: "connections_ok S server_fd" and h: "workers_ok A h" and r: "r = 0 \<or> r = - 1"
  shows "main_ok A (application_loop S T server_fd r h)"
proof (cases "application_loop S T server_fd r h")
  case None
  then show ?thesis by (simp add: main_ok_def)
next
  case (Some y)
  have "thread_api_ok T \<longrightarrow> connections_ok S server_fd \<longrightarrow> workers_ok A h \<longrightarrow> r = 0 \<or> r = - 1 \<longrightarrow> main_ok A (Some y)"
  proof (rule application_loop.raw_induct [OF _ Some,
        where P = "\<lambda>S T server_fd r h y. thread_api_ok T \<longrightarrow> connections_ok S server_fd \<longrightarrow> workers_ok A h \<longrightarrow> r = 0 \<or> r = - 1 \<longrightarrow> main_ok A (Some y)"],
      intro impI, goal_cases)
    case (1 loop S T server_fd r h y)
    show ?case
    proof (cases "config_is_terminated (process h)")
      case True
      with 1 show ?thesis by (auto simp: main_ok_def)
    next
      case False
      have body: "main_ok A (application_body S T server_fd r h)" using 1 by (intro application_body_ok)
      have "main_ok A (bindT (application_body S T server_fd r h) (\<lambda>(r, h1). loop S T server_fd r h1))"
      proof (rule main_ok_bindT, goal_cases)
        case (1 e)
        with body show ?case by (simp add: main_ok_def)
      next
        case (2 x)
        then show ?case using body 1 by (cases "loop S T server_fd (fst x) (snd x)") (auto simp: main_ok_def)
      qed
      with 1 False show ?thesis by simp
    qed
  qed
  with assms Some show ?thesis by simp
qed

lemma join_and_free_ok:
  assumes "join_ok J" and "workers_ok A h" and "r = 0 \<or> r = - 1"
  shows "\<exists>r' h'. bindT (slist_join_threads J h) (\<lambda>(is_error, h2).
      bindT (slist_free h2) (\<lambda>h3. returns (if is_error then - 1 else r, h3))) = returns (r', h') \<and>
    is_slist h' [] \<and> dom (node_heap h') = A \<and> (r' = 0 \<or> r' = - 1)"
proof -
  from assms(2) obtain xs where xs: "is_slist h xs" "dom (node_heap h) = A \<union> set xs" "A \<inter> set xs = {}"
    by (auto simp: workers_ok_def)
  obtain is_error h2 where j: "slist_join_threads J h = returns (is_error, h2)" "is_slist h2 []"
    "dom (node_heap h2) = dom (node_heap h) - set xs"
    by (rule join_threads_outcome [OF assms(1) xs(1)])
  obtain h3 where f: "slist_free h2 = returns h3" "is_slist h3 []" "dom (node_heap h3) = dom (node_heap h2) - set []"
    by (rule slist_free_outcome [OF j(2)])
  have "dom (node_heap h3) = A" using f(3) j(3) xs(2,3) by auto
  with j(1) f(1,2) assms(3) show ?thesis by simp
qed

text \<open>
  The server is told to stop: every round of the accept loop ends, and after finitely many rounds
  (\<open>m\<close> counts those still to come) the termination flag is set.
\<close>

definition stops :: "'w posix \<Rightarrow> 'w thread_api \<Rightarrow> int \<Rightarrow> bool" where
  "stops S T server_fd \<longleftrightarrow>
     (\<exists>m :: 'w main_state \<Rightarrow> nat. \<forall>r h. application_body S T server_fd r h \<noteq> None \<and>
        (\<forall>r' h'. application_body S T server_fd r h = returns (r', h') \<longrightarrow> config_is_terminated (process h') \<or> m h' < m h))"

lemma application_loop_returns:
  assumes "stops S T server_fd"
  shows "application_loop S T server_fd r h \<noteq> None"
proof -
  obtain m :: "'a main_state \<Rightarrow> nat" where body: "application_body S T server_fd r h \<noteq> None"
    and dec: "application_body S T server_fd r h = returns (r', h') \<Longrightarrow> config_is_terminated (process h') \<or> m h' < m h" for r h r' h'
    using assms unfolding stops_def by blast
  show ?thesis
  proof (induction "m h" arbitrary: r h rule: less_induct)
    case less
    show ?case
    proof (cases "application_body S T server_fd r h")
      case (Some y)
      have "application_loop S T server_fd r' h' \<noteq> None" if "y = Inr (r', h')" for r' h'
        using dec [of r h r' h'] less [of h' r'] Some that by (cases "config_is_terminated (process h')") (simp_all add: application_loop.simps)
      then show ?thesis
        using Some by (subst application_loop.simps) (cases y; auto)
    qed (use body in blast)
  qed
qed

lemma application_ends:
  assumes "thread_api_ok T" and "connections_ok S server_fd"
  shows "case application S T server_fd h of
       None \<Rightarrow> \<not> stops S T server_fd
     | Some (Inl e) \<Rightarrow> e = NullDeref
     | Some (Inr (r, h')) \<Rightarrow> is_slist h' [] \<and> dom (node_heap h') = dom (node_heap h) \<and> (r = 0 \<or> r = - 1)"
proof -
  let ?A = "dom (node_heap h)"
  have "workers_ok ?A (SLIST_INIT h)"
    by (auto simp: workers_ok_def SLIST_INIT_def is_slist_def intro: exI [of _ "[]"])
  then have ok: "main_ok ?A (application_loop S T server_fd 0 (SLIST_INIT h))"
    using assms by (intro application_loop_ok) simp_all
  show ?thesis
  proof (cases "application_loop S T server_fd 0 (SLIST_INIT h)")
    case (Some y)
    show ?thesis
    proof (cases y)
      case (Inr rh)
      obtain r h1 where rh: "rh = (r, h1)" by (cases rh)
      have "join_ok (th_join T)" using assms(1) by (simp add: thread_api_ok_def)
      then show ?thesis
        using join_and_free_ok [of "th_join T" ?A h1 r] ok Some Inr rh
        by (auto simp: application_def main_ok_returns)
    qed (use Some ok in \<open>simp add: application_def main_ok_def\<close>)
  next
    case None
    then show ?thesis using application_loop_returns [of S T server_fd 0 "SLIST_INIT h"] by (auto simp: application_def)
  qed
qed

section \<open>A concrete thread library\<close>

text \<open>One node at a time can be allocated, threads start and end at once, joins succeed.\<close>

definition ex_threads :: "'w thread_api" where
  "ex_threads = \<lparr>th_create = (\<lambda>x h. ((0, 7), h)), th_join = quiet_join (\<lambda>_. 0) (\<lambda>_ g. g), th_run = (\<lambda>h. h),
     th_malloc = (\<lambda>h. (if node_heap h 0 = None then Some 0 else None, h)),
     th_create_logger = (\<lambda>h. ((0, 8), h)), th_mutex_init = (\<lambda>h. (0, h)),
     th_mutex_destroy = (\<lambda>h. (0, h))\<rparr>"

lemma ex_threads_ok: "thread_api_ok ex_threads"
  using quiet_join_ok [of "\<lambda>_. 0" "\<lambda>_ g. g"]
  by (simp add: thread_api_ok_def ex_threads_def interferes_def same_links_def)

definition ex_main :: "ref_env system main_state" where
  "ex_main = \<lparr>slh_first = None, node_heap = Map.empty, process = ex_globals [] [[[120, 10]]]\<rparr>"

lemma ex_main_heap: "dom (node_heap ex_main) = {}"
  by (simp add: ex_main_def)

lemma no_posix_connection: "socket_client_create_connection no_posix server_fd connection_timeout w =
    (if is_terminated w then returns ((1, - 1), w) else returns ((- 1, - 1), w))"
  by (simp add: socket_client_create_connection_def bindP_def no_posix_def timespec_add_def add_s64_def
      connection_timeout_def accept_loop.simps [of _ _ _ "- 1"] config_is_terminated_def timespec_is_elapsed_def EAGAIN_def)

lemma no_posix_close: "sys_close no_posix fd = retP (- 1)"
  by (simp add: no_posix_def)

lemma no_posix_connections_ok: "connections_ok no_posix server_fd"
  unfolding connections_ok_def no_posix_connection by (simp add: no_posix_def)

lemma no_posix_stops: "stops no_posix (ex_threads :: 'w thread_api) server_fd"
  unfolding stops_def
  by (intro exI [of _ "\<lambda>_. 0"])
    (auto simp: application_body_def on_process_def no_posix_connection no_posix_close ex_threads_def terminate_def
      config_is_terminated_def config_set_is_terminated_def)

section \<open>Properties\<close>




text \<open>
  When the socket is created but cannot be bound to the port, \<^verbatim>\<open>main\<close> returns -1
  after closing descriptor 0 and freeing the address information: no call closes the socket.
\<close>

lemma main_bind_failure_closes_stdin:
  assumes "sys_socket S (process h) = returns (fd, g1)" and "fd \<noteq> - 1"
    and "sys_setsockopt S fd g1 = returns (0, g2)" and "sys_getaddrinfo S PORT g2 = returns ((0, ai), g3)"
    and "sys_bind S fd ai g3 = returns (- 1, g4)"
    and "sys_close S 0 g4 = returns (x, g5)" and "sys_freeaddrinfo S (Some ai) g5 = returns ((), g6)"
  shows "main S T use_device [prog] timer0 h = returns (Returned (- 1), h\<lparr>process := g6\<rparr>)"
  using assms
  by (simp add: main_def on_process_def setup_socket_server_def socket_server_create_def
      socket_server_create_address_info_def bindP_def)

end
