(* ===== verification/Process_Logic.thy ===== *)
theory Process_Logic
  imports Posix
begin

text \<open>
  Reasoning about operations that return, fault or never return: what holds of each of the three
  outcomes, and weakest preconditions of process operations that must return.
\<close>

section \<open>Outcomes\<close>

text \<open>\<open>N\<close> holds if the operation never returns, \<open>F\<close> of its fault, \<open>Q\<close> of its value.\<close>

definition ends :: "bool \<Rightarrow> (fault \<Rightarrow> bool) \<Rightarrow> ('a \<Rightarrow> bool) \<Rightarrow> (fault + 'a) option \<Rightarrow> bool" where
  "ends N F Q m = (case m of None \<Rightarrow> N | Some (Inl e) \<Rightarrow> F e | Some (Inr x) \<Rightarrow> Q x)"

lemma ends_simps [simp]:
  "ends N F Q None = N" "ends N F Q (Some (Inl e)) = F e" "ends N F Q (returns x) = Q x"
  by (simp_all add: ends_def)

lemma ends_bindT: "ends N F Q (bindT m f) = ends N F (\<lambda>x. ends N F Q (f x)) m"
  by (simp add: ends_def bindT_def split: option.splits sum.splits)

lemma ends_mono:
  "ends N F Q m \<Longrightarrow> (N \<Longrightarrow> N') \<Longrightarrow> (\<And>e. F e \<Longrightarrow> F' e) \<Longrightarrow> (\<And>x. Q x \<Longrightarrow> Q' x) \<Longrightarrow> ends N' F' Q' m"
  by (auto simp: ends_def split: option.splits sum.splits)

lemma ends_conj: "ends N F Q m \<Longrightarrow> ends N F Q' m \<Longrightarrow> ends N F (\<lambda>x. Q x \<and> Q' x) m"
  by (auto simp: ends_def split: option.splits sum.splits)

section \<open>Weakest preconditions\<close>

named_theorems wp_rules \<open>weakest preconditions of process operations\<close>

definition wp :: "('w, 'a) proc \<Rightarrow> ('a \<Rightarrow> 'w globals \<Rightarrow> bool) \<Rightarrow> 'w globals \<Rightarrow> bool" where
  "wp m Q w = ends False (\<lambda>_. False) (\<lambda>(x, w'). Q x w') (m w)"

lemma wp_simps [simp]:
  "wp (retP x) Q w = Q x w" "wp (updP u) P w = P () (u w)"
  "wp (bindP m f) R w = wp m (\<lambda>x. wp (f x) R) w"
  by (simp_all add: wp_def bindP_def ends_bindT case_prod_unfold)

lemma wp_if [simp]: "wp (if b then m else m') Q w = (if b then wp m Q w else wp m' Q w)"
  by simp

lemma wp_split [simp]: "wp (case p of (x, y) \<Rightarrow> f x y) Q w = (case p of (x, y) \<Rightarrow> wp (f x y) Q w)"
  by (simp add: case_prod_unfold)

lemma wp_mono: "wp m P w \<Longrightarrow> (\<And>x w'. P x w' \<Longrightarrow> Q x w') \<Longrightarrow> wp m Q w"
  unfolding wp_def by (erule ends_mono) auto

lemma wpE:
  assumes "wp m Q w"
  obtains x w' where "m w = returns (x, w')" and "Q x w'"
  using assms by (auto simp: wp_def ends_def split: option.splits sum.splits)

lemma wp_ends: "wp m Q w \<Longrightarrow> ends N F (\<lambda>(x, w'). Q x w') (m w)"
  unfolding wp_def by (erule ends_mono) auto

end
