(* ===== verification/Server_Resources.thy ===== *)
theory Server_Resources
  imports Application Process_Logic
begin

text \<open>
  What \<^verbatim>\<open>main\<close> of \<^verbatim>\<open>server/src/main.c\<close> does with the resources it acquires: the listening socket, the
  address information and the timer.
\<close>

section \<open>Resources\<close>

text \<open>The sockets that were created and not closed, and the address lists and timers that are live.\<close>

record resources =
  sockets :: "int set"
  infos :: "nat set"
  timers :: "nat set"

text \<open>
  What the documentation of the calls says, for a view of the resources: a call that creates
  returns something that is not live yet, or an error; a call that releases returns in any case,
  and what it is given is not live afterwards; the other calls return and change nothing. A
  socket is not descriptor 0, since that is open. Deleting a timer that does not exist is an
  error without effect.
\<close>

definition keeps :: "('w globals \<Rightarrow> resources) \<Rightarrow> ('w, 'a) proc \<Rightarrow> bool" where
  "keeps view m \<longleftrightarrow> (\<forall>w. wp m (\<lambda>_ w'. view w' = view w) w)"

definition creates :: "('w globals \<Rightarrow> resources) \<Rightarrow> 'w posix \<Rightarrow> bool" where
  "creates view S \<longleftrightarrow>
     (\<forall>w. wp (sys_socket S) (\<lambda>fd w'. if fd = - 1 then view w' = view w
        else 0 < fd \<and> fd \<notin> sockets (view w) \<and> view w' = (view w)\<lparr>sockets := insert fd (sockets (view w))\<rparr>) w) \<and>
     (\<forall>w. wp (sys_getaddrinfo S PORT) (\<lambda>(r, ai) w'. if r \<noteq> 0 then view w' = view w
        else ai \<notin> infos (view w) \<and> view w' = (view w)\<lparr>infos := insert ai (infos (view w))\<rparr>) w) \<and>
     (\<forall>w. wp (sys_timer_create S) (\<lambda>(r, t) w'. if r \<noteq> 0 then view w' = view w
        else t \<notin> timers (view w) \<and> view w' = (view w)\<lparr>timers := insert t (timers (view w))\<rparr>) w)"

definition releases :: "('w globals \<Rightarrow> resources) \<Rightarrow> 'w posix \<Rightarrow> bool" where
  "releases view S \<longleftrightarrow>
     (\<forall>fd w. wp (sys_close S fd) (\<lambda>_ w'. view w' = (view w)\<lparr>sockets := sockets (view w) - {fd}\<rparr>) w) \<and>
     (\<forall>p w. wp (sys_freeaddrinfo S p) (\<lambda>_ w'. view w' = (view w)\<lparr>infos := infos (view w) - set_option p\<rparr>) w) \<and>
     (\<forall>t w. wp (sys_timer_delete S t) (\<lambda>_ w'. view w' = (view w)\<lparr>timers := timers (view w) - {t}\<rparr>) w)"

text \<open>The calls that concern none of these resources. An accepted connection is a new descriptor.\<close>

definition neutral :: "('w globals \<Rightarrow> resources) \<Rightarrow> 'w posix \<Rightarrow> bool" where
  "neutral view S \<longleftrightarrow>
     (\<forall>fd. keeps view (sys_setsockopt S fd)) \<and> (\<forall>fd ai. keeps view (sys_bind S fd ai)) \<and>
     (\<forall>fd n. keeps view (sys_listen S fd n)) \<and> keeps view (sys_fork S) \<and> keeps view (sys_setsid S) \<and>
     (\<forall>d. keeps view (sys_chdir S d)) \<and> (\<forall>p fs m. keeps view (sys_open S p fs m)) \<and> (\<forall>fd. keeps view (sys_dup S fd)) \<and>
     (\<forall>sig. keeps view (sys_signal S sig)) \<and> keeps view (sys_sem_init S) \<and>
     (\<forall>t a b. keeps view (sys_timer_settime S t a b)) \<and> (\<forall>p. keeps view (sys_remove S p)) \<and>
     keeps view (sys_clock S) \<and> (\<forall>t. keeps view (sys_nanosleep S t)) \<and>
     (\<forall>fd w. wp (sys_accept S fd) (\<lambda>c w'. view w' = view w \<and> (c < 0 \<or> c \<notin> sockets (view w))) w)"

text \<open>The globals of the process are not resources, and the other threads do not touch them.\<close>

definition globals_apart :: "('w globals \<Rightarrow> resources) \<Rightarrow> bool" where
  "globals_apart view \<longleftrightarrow> (\<forall>w b n. view (w\<lparr>is_terminated := b\<rparr>) = view w \<and> view (w\<lparr>timestamp_semaphore := n\<rparr>) = view w)"

definition threads_apart :: "('w globals \<Rightarrow> resources) \<Rightarrow> 'w thread_api \<Rightarrow> bool" where
  "threads_apart view T \<longleftrightarrow>
     (\<forall>h. view (process (th_run T h)) = view (process h) \<and> view (process (snd (th_malloc T h))) = view (process h) \<and>
        view (process (snd (th_create_logger T h))) = view (process h) \<and>
        view (process (snd (th_mutex_init T h))) = view (process h) \<and> view (process (snd (th_mutex_destroy T h))) = view (process h)) \<and>
     (\<forall>x h. view (process (snd (th_create T x h))) = view (process h) \<and> view (process (snd (th_join T x h))) = view (process h))"

definition resource_system :: "('w globals \<Rightarrow> resources) \<Rightarrow> 'w posix \<Rightarrow> 'w thread_api \<Rightarrow> bool" where
  "resource_system view S T \<longleftrightarrow>
     creates view S \<and> releases view S \<and> neutral view S \<and> globals_apart view \<and> threads_apart view T"

section \<open>Setting up\<close>

lemma keepsI: "keeps view m \<Longrightarrow> (\<And>x w'. view w' = view w \<Longrightarrow> Q x w') \<Longrightarrow> wp m Q w"
  unfolding keeps_def by (blast intro: wp_mono)

lemma keepsE:
  assumes "keeps view m"
  obtains x w' where "m w = returns (x, w')" and "view w' = view w"
  using assms unfolding keeps_def by (blast elim: wpE)

lemma neutralD:
  assumes "neutral view S"
  shows "keeps view (sys_setsockopt S fd)" and "keeps view (sys_bind S fd ai)" and "keeps view (sys_listen S fd n)"
    and "keeps view (sys_fork S)" and "keeps view (sys_setsid S)" and "keeps view (sys_chdir S d)"
    and "keeps view (sys_open S p fs m)" and "keeps view (sys_dup S fd)" and "keeps view (sys_signal S sig)"
    and "keeps view (sys_sem_init S)" and "keeps view (sys_timer_settime S t a b)" and "keeps view (sys_remove S p)"
    and "keeps view (sys_clock S)" and "keeps view (sys_nanosleep S pause)"
  using assms by (simp_all add: neutral_def)

lemma acceptD: "neutral view S \<Longrightarrow> wp (sys_accept S fd) (\<lambda>c w'. view w' = view w \<and> (c < 0 \<or> c \<notin> sockets (view w))) w"
  by (simp add: neutral_def)

lemma createsD:
  assumes "creates view S"
  shows "wp (sys_socket S) (\<lambda>fd w'. if fd = - 1 then view w' = view w
        else 0 < fd \<and> fd \<notin> sockets (view w) \<and> view w' = (view w)\<lparr>sockets := insert fd (sockets (view w))\<rparr>) w"
    and "wp (sys_getaddrinfo S PORT) (\<lambda>(r, ai) w'. if r \<noteq> 0 then view w' = view w
        else ai \<notin> infos (view w) \<and> view w' = (view w)\<lparr>infos := insert ai (infos (view w))\<rparr>) w"
    and "wp (sys_timer_create S) (\<lambda>(r, t) w'. if r \<noteq> 0 then view w' = view w
        else t \<notin> timers (view w) \<and> view w' = (view w)\<lparr>timers := insert t (timers (view w))\<rparr>) w"
  using assms unfolding creates_def by blast+

text \<open>
  What the setup of the socket leaves behind, with the values of the caller's variables: a
  socket that is not in the caller's variable stays open, which happens only after a failure.
\<close>

definition socket_setup :: "resources \<Rightarrow> int \<Rightarrow> int \<Rightarrow> nat option \<Rightarrow> resources \<Rightarrow> bool" where
  "socket_setup v r fd info v' \<longleftrightarrow>
     (r = 0 \<or> r = - 1) \<and> 0 \<notin> sockets v' \<and> timers v' = timers v \<and> infos v' - set_option info = infos v \<and>
     (sockets v' - {fd} = sockets v \<or> r = - 1 \<and> (\<exists>fd'. fd' \<notin> sockets v \<and> sockets v' - {fd} = insert fd' (sockets v)))"

lemma socket_server_create_wp:
  assumes S: "creates view S" "neutral view S" and v: "view w = v" "0 \<notin> sockets v"
  shows "wp (socket_server_create S 0 None) (\<lambda>(r, fd, info) w'. socket_setup v r fd info (view w')) w"
  unfolding socket_server_create_def socket_server_create_address_info_def
  using v
  by (auto intro!: wp_mono [OF createsD(1) [OF S(1)]] wp_mono [OF createsD(2) [OF S(1)]] keepsI [OF neutralD(1) [OF S(2)]]
      keepsI [OF neutralD(2) [OF S(2)]] keepsI [OF neutralD(3) [OF S(2)]] simp: socket_setup_def split: if_splits)
    blast+

lemma daemonize_wp:
  assumes "neutral view S"
  shows "wp (daemonize S) (\<lambda>r w'. view w' = view w) w"
  unfolding daemonize_def
  by (auto intro!: keepsI [OF neutralD(4) [OF assms]] keepsI [OF neutralD(5) [OF assms]] keepsI [OF neutralD(6) [OF assms]]
      keepsI [OF neutralD(7) [OF assms]] keepsI [OF neutralD(8) [OF assms]])

lemma setup_socket_server_wp:
  assumes S: "creates view S" "neutral view S" and v: "view w = v" "0 \<notin> sockets v"
  shows "wp (setup_socket_server S daemon 0 None) (\<lambda>res w'. case res of
     Exited code \<Rightarrow> code = 0 | Returned (r, fd, info) \<Rightarrow> socket_setup v r fd info (view w')) w"
proof -
  have other: "socket_setup v (- 1) fd info v'" if "socket_setup v 0 fd info v'" for fd info v'
    using that by (simp add: socket_setup_def)
  show ?thesis
    unfolding setup_socket_server_def
    by (auto intro!: wp_mono [OF socket_server_create_wp [OF S v]] wp_mono [OF daemonize_wp [OF S(2)]] simp: other)
      (auto simp: socket_setup_def)
qed

lemma setup_signal_handlers_wp:
  assumes S: "creates view S" "neutral view S" "globals_apart view" and v: "view w = v" "timer0 \<notin> timers v"
  shows "wp (setup_signal_handlers S timer0) (\<lambda>(r, t) w'. (r = 0 \<or> r = - 1) \<and> sockets (view w') = sockets v \<and>
     infos (view w') = infos v \<and> timers (view w') - {t} = timers v) w"
proof -
  have g: "view (w\<lparr>timestamp_semaphore := n\<rparr>) = view w" for w n using S(3) by (simp add: globals_apart_def)
  show ?thesis
    unfolding setup_signal_handlers_def
    using v
    by (auto intro!: wp_mono [OF createsD(3) [OF S(1)]] keepsI [OF neutralD(9) [OF S(2)]] keepsI [OF neutralD(10) [OF S(2)]]
        keepsI [OF neutralD(11) [OF S(2)]] simp: g split: if_splits)
qed

section \<open>The accept loop\<close>

text \<open>While clients come and go, the resources of the main thread stay as they are.\<close>

abbreviation if_returns :: "('a \<Rightarrow> bool) \<Rightarrow> (fault + 'a) option \<Rightarrow> bool" where
  "if_returns \<equiv> ends True (\<lambda>_. True)"

lemma if_returnsI: "(\<And>x. m = returns x \<Longrightarrow> Q x) \<Longrightarrow> if_returns Q m"
  by (simp add: ends_def split: option.splits sum.splits)

lemma if_returnsD: "if_returns Q m \<Longrightarrow> m = returns x \<Longrightarrow> Q x"
  by simp

lemma ends_on_process: "ends N F Q (on_process m h) = ends N F (\<lambda>(x, g). Q (x, h\<lparr>process := g\<rparr>)) (m (process h))"
  by (simp add: on_process_def ends_bindT case_prod_unfold)

lemma slist_discard_process: "slist_discard p h = returns h' \<Longrightarrow> process h' = process h"
  by (auto simp: slist_discard_def SLIST_REMOVE_def SLIST_REMOVE_HEAD_def SLIST_REMOVE_AFTER_def set_next_def free_node_def
      bindT_def bindE_def split: if_splits Option.bind_splits sum.splits option.splits prod.splits)

lemma join_and_remove_process:
  assumes "threads_apart view T" and "join_and_remove (th_join T) p (c, h) = returns (c', h')"
  shows "view (process h') = view (process h)"
proof -
  obtain x n where d: "deref p h = Inr (x, n)" using assms(2) by (cases "deref p h") (auto simp: join_and_remove_def)
  obtain r h1 where J: "th_join T (thread n) h = (r, h1)" by (cases "th_join T (thread n) h")
  then have "view (process h1) = view (process h)" using assms(1) unfolding threads_apart_def by (metis snd_conv)
  moreover obtain h2 where "slist_discard p h1 = returns h2" "h' = h2"
    using assms(2) d J by (cases "slist_discard p h1"; cases "the (slist_discard p h1)") (auto simp: join_and_remove_def)
  ultimately show ?thesis using slist_discard_process by metis
qed

lemma join_if_completed_process:
  assumes "threads_apart view T" and "join_if_completed (th_join T) p (c, h) = returns (c', h')"
  shows "view (process h') = view (process h)"
  using assms(2) join_and_remove_process [OF assms(1)]
  by (cases "deref p h") (auto simp: join_if_completed_def split: ThreadStatus.splits)

lemma slist_joins_process:
  assumes "threads_apart view T"
  shows "slist_join_completed_threads (th_join T) h = returns (c, h') \<Longrightarrow> view (process h') = view (process h)"
    and "slist_join_threads (th_join T) h = returns (c, h') \<Longrightarrow> view (process h') = view (process h)"
proof -
  let ?P = "\<lambda>st. view (process (snd st)) = view (process h)"
  show "view (process h') = view (process h)" if "slist_join_completed_threads (th_join T) h = returns (c, h')"
    using foreach_safe_invariant [of SLIST_NEXT _ _ _ _ ?P, OF that [unfolded slist_join_completed_threads_def SLIST_FOREACH_SAFE_def]]
      join_if_completed_process [OF assms] by (metis snd_conv prod.collapse)
  show "view (process h') = view (process h)" if "slist_join_threads (th_join T) h = returns (c, h')"
    using foreach_safe_invariant [of SLIST_NEXT _ _ _ _ ?P, OF that [unfolded slist_join_threads_def SLIST_FOREACH_SAFE_def]]
      join_and_remove_process [OF assms] by (metis snd_conv prod.collapse)
qed

lemma slist_free_process: "slist_free h = returns h' \<Longrightarrow> process h' = process h"
proof -
  assume "slist_free h = returns h'"
  then have "case Inr h' :: fault + _ of Inl e \<Rightarrow> True | Inr h' \<Rightarrow> process h' = process h"
  proof (rule slist_free.raw_induct [rotated, where P = "\<lambda>h y. case y of Inl e \<Rightarrow> True | Inr h' \<Rightarrow> process h' = process h"], goal_cases)
    case (1 loop h y)
    consider (stop) "y = Inr h" | (fault) e where "y = Inl e"
      | (step) h1 where "slist_discard (SLIST_FIRST h) h = returns h1" "loop h1 = Some y"
      using 1(2) by (auto simp: bindT_def split: if_splits Option.bind_splits sum.splits)
    then show ?case
    proof cases
      case step
      with 1(1) [OF step(2)] slist_discard_process [OF step(1)] show ?thesis by (auto split: sum.splits)
    qed simp_all
  qed
  then show ?thesis by simp
qed

lemma accept_loop_view:
  assumes "accept_loop S sfd e c w = returns ((code, fd), w')" and "neutral view S" and "view w = v" and "c < 0 \<or> c \<notin> sockets v"
  shows "view w' = v \<and> (code = 0 \<longrightarrow> fd \<notin> sockets v)"
proof -
  let ?Q = "\<lambda>((code, fd), w'). view w' = v \<and> (code = 0 \<longrightarrow> fd \<notin> sockets v)"
  have "neutral view S \<longrightarrow> view w = v \<longrightarrow> c < 0 \<or> c \<notin> sockets v \<longrightarrow> if_returns ?Q (returns ((code, fd), w'))"
  proof (rule accept_loop.raw_induct [OF _ assms(1), where P = "\<lambda>S sfd e c w y.
        neutral view S \<longrightarrow> view w = v \<longrightarrow> c < 0 \<or> c \<notin> sockets v \<longrightarrow> if_returns ?Q (Some y)"], intro impI, goal_cases)
    case (1 loop S sfd e c w y)
    obtain t w1 where ck: "sys_clock S w = returns (t, w1)" "view w1 = v"
      using keepsE [OF neutralD(13) [OF 1(3)], of w] 1(4) by metis
    obtain fd w2 where ac: "sys_accept S sfd w1 = returns (fd, w2)" "view w2 = v" "fd < 0 \<or> fd \<notin> sockets v"
      using acceptD [OF 1(3), of sfd w1] ck(2) by (auto elim: wpE)
    obtain w3 where sl: "sys_nanosleep S accept_delay w2 = returns ((), w3)" "view w3 = v"
      using keepsE [OF neutralD(14) [OF 1(3)], of accept_delay w2] ac(2) by (metis (full_types) old.unit.exhaust)
    show ?case
      using 1(2) 1(1) [of S sfd e fd w3 y] 1(3-5) ck ac sl by (auto split: if_splits)
  qed
  with assms show ?thesis by simp
qed

text \<open>Closing a descriptor that is not one of the sockets changes nothing.\<close>

lemma close_view:
  assumes "releases view S" and "view w = v" and "fd \<notin> sockets v"
  shows "wp (sys_close S fd) (\<lambda>_ w'. view w' = v) w"
proof -
  have "wp (sys_close S fd) (\<lambda>_ w'. view w' = (view w)\<lparr>sockets := sockets (view w) - {fd}\<rparr>) w"
    using assms(1) by (simp add: releases_def)
  then show ?thesis by (rule wp_mono) (use assms(2,3) in simp)
qed

lemma view_terminate: "globals_apart view \<Longrightarrow> view (process (terminate h)) = view (process h)"
  by (simp add: terminate_def config_set_is_terminated_def globals_apart_def)

lemma close_and_terminate_view:
  assumes "releases view S" and "globals_apart view" and "view (process h) = v" and "fd \<notin> sockets v"
  shows "if_returns (\<lambda>(r, h'). view (process h') = v)
    (bindT (on_process (sys_close S fd) h) (\<lambda>(_, h2). returns (- 1, terminate h2)))"
  using wp_ends [OF close_view [OF assms(1,3,4)], of True "\<lambda>_. True"]
  by (simp add: ends_bindT ends_on_process view_terminate [OF assms(2)] case_prod_unfold)

lemma start_worker_view:
  assumes S: "resource_system view S T" and v: "view (process h) = v" "fd \<notin> sockets v"
  shows "if_returns (\<lambda>(r, h'). view (process h') = v) (start_worker S T fd r h)"
proof (cases "th_malloc T h")
  case (Pair p h1)
  have apart: "threads_apart view T" "releases view S" "globals_apart view" using S by (simp_all add: resource_system_def)
  have h1: "view (process h1) = v" using apart(1) v(1) Pair unfolding threads_apart_def by (metis snd_conv)
  show ?thesis
  proof (cases p)
    case (Some x)
    let ?h2 = "h1\<lparr>node_heap := (node_heap h1)(x \<mapsto>
        \<lparr>thread_data = \<lparr>client_fd = fd, thread_status = UNITITIALIZED\<rparr>, thread = 0, nodes = None\<rparr>)\<rparr>"
    obtain cr tid h3 where cr: "th_create T x ?h2 = ((cr, tid), h3)" by (metis prod.collapse)
    have "view (process h3) = view (process ?h2)" using apart(1) cr unfolding threads_apart_def by (metis snd_conv)
    then have h3: "view (process h3) = v" using h1 by simp
    have free: "if_returns (\<lambda>h4. process h4 = process h3) (Some (free_node (Some x) h3))"
      by (simp add: free_node_def)
    have insert: "SLIST_INSERT_HEAD (Some x) h4 = Inr h5 \<Longrightarrow> process h5 = process h4" for h4 h5 :: "'a main_state"
      by (auto simp: SLIST_INSERT_HEAD_def set_next_def bindE_Inr_iff)
    show ?thesis
    proof (cases "cr = 0")
      case False
      have "if_returns (\<lambda>(r, h'). view (process h') = v) (bindT (Some (free_node (Some x) h3))
          (\<lambda>h4. bindT (on_process (sys_close S fd) h4) (\<lambda>(_, h5). returns (- 1, terminate h5))))"
        unfolding ends_bindT [of _ _ _ "Some (free_node (Some x) h3)"]
        by (rule ends_mono [OF free]) (auto intro!: close_and_terminate_view [OF apart(2,3) _ v(2)] simp: h3)
      then show ?thesis using False by (simp add: start_worker_def Pair Some cr)
    next
      case True
      show ?thesis
        using True h3 unfolding start_worker_def
        by (auto simp: Pair Some cr bindT_def intro!: if_returnsI dest!: insert split: sum.splits Option.bind_splits)
    qed
  qed (simp add: start_worker_def Pair)
qed

lemma application_body_view:
  assumes S: "resource_system view S T" and v: "view (process h) = v" "0 \<notin> sockets v"
  shows "if_returns (\<lambda>(r, h'). view (process h') = v) (application_body S T sfd r h)"
proof (rule if_returnsI)
  fix res assume body: "application_body S T sfd r h = returns res"
  have apart: "threads_apart view T" "releases view S" "globals_apart view" "neutral view S" using S by (simp_all add: resource_system_def)
  obtain code fd g where con: "socket_client_create_connection S sfd connection_timeout (process h) = returns ((code, fd), g)"
    using body by (cases "socket_client_create_connection S sfd connection_timeout (process h)";
        cases "the (socket_client_create_connection S sfd connection_timeout (process h))")
      (auto simp: application_body_def on_process_def)
  obtain t w1 where ck: "sys_clock S (process h) = returns (t, w1)" "view w1 = v"
    using keepsE [OF neutralD(13) [OF apart(4)], of "process h"] v(1) by metis
  obtain d where "accept_loop S sfd d (- 1) w1 = returns ((code, fd), g)"
    using con ck(1) by (cases "timespec_add t connection_timeout") (auto simp: socket_client_create_connection_def bindP_def)
  from accept_loop_view [OF this apart(4) ck(2)] have g: "view g = v" "code = 0 \<longrightarrow> fd \<notin> sockets v" by simp_all
  let ?h1 = "th_run T (h\<lparr>process := g\<rparr>)"
  have h1: "view (process ?h1) = v" using apart(1) g(1) by (simp add: threads_apart_def)
  have join: "view (process h2) = v" if "slist_join_completed_threads (th_join T) ?h1 = returns (e, h2)" for e h2
    using slist_joins_process(1) [OF apart(1) that] h1 by simp
  have "if_returns (\<lambda>(r, h'). view (process h') = v) (application_body S T sfd r h)"
    using close_and_terminate_view [OF apart(2,3) h1 v(2)] start_worker_view [OF S h1, of fd r] g(2) h1 join
    by (auto simp: application_body_def on_process_def con Let_def ends_bindT view_terminate [OF apart(3)] intro!: if_returnsI
        split: if_splits)
  from if_returnsD [OF this body] show "case res of (r, h') \<Rightarrow> view (process h') = v" .
qed

lemma application_loop_view:
  assumes "application_loop S T sfd r h = returns (r', h')" and "resource_system view S T"
    and "view (process h) = v" and "0 \<notin> sockets v"
  shows "view (process h') = v"
proof -
  let ?Q = "\<lambda>(r, h'). view (process h') = v"
  have "resource_system view S T \<longrightarrow> view (process h) = v \<longrightarrow> if_returns ?Q (returns (r', h'))"
  proof (rule application_loop.raw_induct [OF _ assms(1), where P = "\<lambda>S T sfd r h y.
        resource_system view S T \<longrightarrow> view (process h) = v \<longrightarrow> if_returns ?Q (Some y)"], intro impI, goal_cases)
    case (1 loop S T sfd r h y)
    have body: "if_returns ?Q (application_body S T sfd r h)" using 1(3,4) assms(4) by (rule application_body_view)
    consider (stop) "y = Inr (r, h)" | (fault) e where "y = Inl e"
      | (step) r1 h1 where "application_body S T sfd r h = returns (r1, h1)" "loop S T sfd r1 h1 = Some y"
      using 1(2) by (auto simp: bindT_def split: if_splits Option.bind_splits sum.splits)
    then show ?case
    proof cases
      case step
      then have "view (process h1) = v" using if_returnsD [OF body step(1)] by simp
      then show ?thesis using 1(1) [OF step(2)] 1(3) by blast
    qed (use 1(4) in simp_all)
  qed
  with assms show ?thesis by simp
qed

lemma application_view:
  assumes "application S T sfd h = returns (r, h')" and S: "resource_system view S T" and "0 \<notin> sockets (view (process h))"
  shows "view (process h') = view (process h)"
proof -
  have apart: "threads_apart view T" using S by (simp add: resource_system_def)
  obtain r1 h1 e h2 h3 where "application_loop S T sfd 0 (SLIST_INIT h) = returns (r1, h1)"
      "slist_join_threads (th_join T) h1 = returns (e, h2)" "slist_free h2 = returns h'"
    using assms(1) by (auto simp: application_def bindT_def split: Option.bind_splits sum.splits if_splits)
  moreover have "view (process (SLIST_INIT h)) = view (process h)" by (simp add: SLIST_INIT_def)
  ultimately show ?thesis
    using application_loop_view [OF _ S _ assms(3)] slist_joins_process(2) [OF apart] slist_free_process by metis
qed

section \<open>The program\<close>

text \<open>Releasing the timer, the socket and the address information.\<close>

lemma release_wp:
  assumes "releases view S"
  shows "ends N F (\<lambda>(_, h'). view (process h') =
      \<lparr>sockets = sockets (view (process h)) - {fd}, infos = infos (view (process h)) - set_option info,
       timers = timers (view (process h)) - {t}\<rparr>) (release S t fd info h)"
proof -
  let ?v = "view (process h)"
  have td: "wp (sys_timer_delete S t) (\<lambda>_ w'. view w' = ?v\<lparr>timers := timers ?v - {t}\<rparr>) (process h)"
    and cl: "wp (sys_close S fd) (\<lambda>_ w'. view w' = (view w)\<lparr>sockets := sockets (view w) - {fd}\<rparr>) w"
    and fr: "wp (sys_freeaddrinfo S info) (\<lambda>_ w'. view w' = (view w)\<lparr>infos := infos (view w) - set_option info\<rparr>) w" for w
    using assms by (simp_all add: releases_def)
  have "wp (bindP (sys_timer_delete S t) (\<lambda>_. bindP (sys_close S fd) (\<lambda>_. sys_freeaddrinfo S info)))
      (\<lambda>_ w'. view w' = \<lparr>sockets = sockets ?v - {fd}, infos = infos ?v - set_option info, timers = timers ?v - {t}\<rparr>) (process h)"
    unfolding wp_simps
    by (rule wp_mono [OF td], rule wp_mono [OF cl], rule wp_mono [OF fr]) simp
  from wp_ends [OF this, of N F] show ?thesis
    by (simp add: release_def ends_on_process case_prod_unfold)
qed

definition released :: "int \<Rightarrow> nat option \<Rightarrow> nat \<Rightarrow> resources \<Rightarrow> resources" where
  "released fd info t v = \<lparr>sockets = sockets v - {fd}, infos = infos v - set_option info, timers = timers v - {t}\<rparr>"

lemma release_then:
  assumes "releases view S" and "view (process h) = v" and "r = 0 \<or> r = - 1"
  shows "ends N F (\<lambda>(r, h'). (r = 0 \<or> r = - 1) \<and> view (process h') = released fd info t v)
    (bindT (release S t fd info h) (\<lambda>(_, h'). returns (r, h')))"
  using release_wp [OF assms(1), of N F h fd info t] assms(2,3)
  by (simp add: ends_bindT released_def case_prod_unfold)

text \<open>
  The outcome of the server after its setup: unless it is never told to stop, or runs out of memory
  for a node, it returns 0 or -1 with everything released.
\<close>

definition server_ends :: "('w globals \<Rightarrow> resources) \<Rightarrow> bool \<Rightarrow> resources \<Rightarrow> (fault + int \<times> 'w main_state) option \<Rightarrow> bool" where
  "server_ends view N v = ends N (\<lambda>e. e = NullDeref) (\<lambda>(r, h'). (r = 0 \<or> r = - 1) \<and> view (process h') = v)"

lemma finish_server_ends:
  assumes S: "resource_system view S T" and v: "view (process h) = v" and r: "r = 0 \<or> r = - 1"
  shows "server_ends view N (released fd info t v) (finish_server S T use_device tid t fd info r h)"
proof -
  have apart: "threads_apart view T" "releases view S" "neutral view S" using S by (simp_all add: resource_system_def)
  let ?h1 = "snd (th_join T tid h)"
  have j: "view (process ?h1) = v" using apart(1) v by (simp add: threads_apart_def)
  obtain y g where rm: "sys_remove S (result_file use_device) (process ?h1) = returns (y, g)" "view g = v"
    using keepsE [OF neutralD(12) [OF apart(3)], of "result_file use_device" "process ?h1"] j by metis
  obtain x h2 where h2: "(if use_device \<noteq> 1 then on_process (sys_remove S (result_file use_device)) ?h1
      else returns (0, ?h1)) = returns (x, h2)" "view (process h2) = v"
    using rm j by (cases "use_device = 1") (auto simp: on_process_def)
  have "view (process (snd (th_mutex_destroy T h2))) = v" using apart(1) h2(2) by (simp add: threads_apart_def)
  from release_then [OF apart(2) this r] h2(1) show ?thesis
    by (simp add: finish_server_def server_ends_def case_prod_unfold Let_def)
qed

lemma run_server_ends:
  assumes S: "resource_system view S T" and T: "thread_api_ok T" and C: "\<And>fd. connections_ok S fd"
    and v: "view (process h) = v" "0 \<notin> sockets v"
  shows "server_ends view (\<exists>fd. \<not> stops S T fd) (released fd info t v) (run_server S T use_device t fd info h)"
proof -
  have apart: "threads_apart view T" "releases view S" using S by (simp_all add: resource_system_def)
  note rel = release_then [OF apart(2), where r = "- 1"]
  obtain cr tid h1 where cr: "th_create_logger T h = ((cr, tid), h1)" by (metis prod.collapse)
  obtain mr h2 where mr: "th_mutex_init T h1 = (mr, h2)" by (cases "th_mutex_init T h1")
  have h1: "view (process h1) = v" using apart(1) cr v(1) unfolding threads_apart_def by (metis snd_conv)
  then have h2: "view (process h2) = v" using apart(1) mr unfolding threads_apart_def by (metis snd_conv)
  have after: "server_ends view (\<exists>fd. \<not> stops S T fd) v (application S T fd h2)"
  proof (cases "application S T fd h2")
    case (Some y)
    then show ?thesis
      using application_ends [OF T C, of fd h2] application_view [OF _ S, of fd h2] h2 v(2) by (cases y) (auto simp: server_ends_def)
  qed (use application_ends [OF T C, of fd h2] in \<open>auto simp: server_ends_def\<close>)
  show ?thesis
  proof (cases "cr \<noteq> 0 \<or> mr \<noteq> 0")
    case True
    then show ?thesis using rel [OF h1] rel [OF h2] by (auto simp: run_server_def cr mr server_ends_def)
  next
    case False
    have "server_ends view (\<exists>fd. \<not> stops S T fd) (released fd info t v)
        (bindT (application S T fd h2) (\<lambda>(r, h3). finish_server S T use_device tid t fd info r h3))"
      unfolding server_ends_def ends_bindT
      by (rule ends_mono [OF after [unfolded server_ends_def]])
        (auto intro!: finish_server_ends [OF S, unfolded server_ends_def])
    with False show ?thesis by (simp add: run_server_def cr mr)
  qed
qed

text \<open>The outcome of \<^verbatim>\<open>main\<close>.\<close>

definition main_result :: "resources \<Rightarrow> int outcome \<Rightarrow> resources \<Rightarrow> bool" where
  "main_result v res v' = (case res of
     Exited code \<Rightarrow> code = 0
   | Returned r \<Rightarrow> (r = 0 \<or> r = 1 \<or> r = - 1) \<and> infos v' = infos v \<and> timers v' = timers v \<and>
       (sockets v' = sockets v \<or> r = - 1 \<and> (\<exists>fd. fd \<notin> sockets v \<and> sockets v' = insert fd (sockets v))))"

lemma setup_failed_ends:
  assumes "releases view S" and "socket_setup v (- 1) fd info (view (process h))"
  shows "ends N F (\<lambda>(res, h'). main_result v res (view (process h')))
    (bindT (on_process (bindP (sys_close S fd) (\<lambda>_. sys_freeaddrinfo S info)) h) (\<lambda>(_, h2). returns (Returned (- 1), h2)))"
proof -
  have "wp (bindP (sys_close S fd) (\<lambda>_. sys_freeaddrinfo S info)) (\<lambda>_ w'. main_result v (Returned (- 1)) (view w')) (process h)"
  proof -
    have cl: "wp (sys_close S fd) (\<lambda>_ w'. view w' = (view w)\<lparr>sockets := sockets (view w) - {fd}\<rparr>) w"
      and fr: "wp (sys_freeaddrinfo S info) (\<lambda>_ w'. view w' = (view w)\<lparr>infos := infos (view w) - set_option info\<rparr>) w" for w
      using assms(1) by (simp_all add: releases_def)
    show ?thesis
      unfolding wp_simps
      by (rule wp_mono [OF cl], rule wp_mono [OF fr]) (use assms(2) in \<open>auto simp: main_result_def socket_setup_def\<close>)
  qed
  from wp_ends [OF this, of N F] show ?thesis
    by (simp add: ends_bindT ends_on_process case_prod_unfold)
qed

text \<open>After the socket is set up: signal handlers and timer, then the server.\<close>

lemma signals_and_server_end:
  assumes S: "resource_system view S T" and T: "thread_api_ok T" "\<And>fd. connections_ok S fd"
    and set: "socket_setup v 0 fd info (view (process h))" and timer: "timer0 \<notin> timers v"
  shows "ends (\<exists>fd. \<not> stops S T fd) (\<lambda>e. e = NullDeref) (\<lambda>(res, h'). main_result v res (view (process h')))
    (bindT (on_process (setup_signal_handlers S timer0) h) (\<lambda>((r, timer), h2).
       if r \<noteq> 0 then bindT (release S timer fd info h2) (\<lambda>(_, h3). returns (Returned (- 1), h3))
       else bindT (run_server S T use_device timer fd info h2) (\<lambda>(result, h3). returns (Returned result, h3))))"
    (is "ends ?N ?F ?R _")
proof -
  have c: "creates view S" "neutral view S" "globals_apart view" "releases view S" using S by (simp_all add: resource_system_def)
  let ?v1 = "view (process h)"
  have v1: "timers ?v1 = timers v" "infos ?v1 - set_option info = infos v" "sockets ?v1 - {fd} = sockets v" "0 \<notin> sockets ?v1"
    using set by (simp_all add: socket_setup_def)
  have "timer0 \<notin> timers ?v1" using timer v1(1) by simp
  then obtain r t g where sig: "setup_signal_handlers S timer0 (process h) = returns ((r, t), g)" "r = 0 \<or> r = - 1"
      "sockets (view g) = sockets ?v1" "infos (view g) = infos ?v1" "timers (view g) - {t} = timers ?v1"
    by (rule wpE [OF setup_signal_handlers_wp [OF c(1-3) refl, of timer0 "process h"]]) auto
  have res: "main_result v (Returned k) (released fd info t (view g))" if "k = 0 \<or> k = - 1" for k
    using v1 sig(3-5) that by (auto simp: main_result_def released_def)
  show ?thesis
  proof (cases "r = 0")
    case True
    have "server_ends view ?N (released fd info t (view g)) (run_server S T use_device t fd info (h\<lparr>process := g\<rparr>))"
      using v1(4) sig(3) by (intro run_server_ends [OF S T]) simp_all
    then have "ends ?N ?F ?R (bindT (run_server S T use_device t fd info (h\<lparr>process := g\<rparr>)) (\<lambda>(result, h3). returns (Returned result, h3)))"
      unfolding server_ends_def ends_bindT by (rule ends_mono) (auto simp: res)
    with True show ?thesis by (simp add: on_process_def sig(1))
  next
    case False
    have "ends ?N ?F ?R (bindT (release S t fd info (h\<lparr>process := g\<rparr>)) (\<lambda>(_, h3). returns (Returned (- 1), h3)))"
      unfolding ends_bindT using release_wp [OF c(4), of ?N ?F "h\<lparr>process := g\<rparr>" fd info t]
      by (rule ends_mono) (use res [of "- 1"] in \<open>auto simp: released_def\<close>)
    with False show ?thesis by (simp add: on_process_def sig(1))
  qed
qed


text \<open>A system that has one socket, one address list and one timer to give, and no clients.\<close>

definition ex_resources :: "resources posix" where
  "ex_resources = no_posix\<lparr>
     sys_socket := (\<lambda>w. if 3 \<in> sockets (world w) then returns (- 1, w)
       else returns (3, w\<lparr>world := (world w)\<lparr>sockets := insert 3 (sockets (world w))\<rparr>\<rparr>)),
     sys_getaddrinfo := (\<lambda>_ w. if 1 \<in> infos (world w) then returns ((1, 0), w)
       else returns ((0, 1), w\<lparr>world := (world w)\<lparr>infos := insert 1 (infos (world w))\<rparr>\<rparr>)),
     sys_timer_create := (\<lambda>w. if 1 \<in> timers (world w) then returns ((- 1, 0), w)
       else returns ((0, 1), w\<lparr>world := (world w)\<lparr>timers := insert 1 (timers (world w))\<rparr>\<rparr>)),
     sys_close := (\<lambda>fd w. returns (0, w\<lparr>world := (world w)\<lparr>sockets := sockets (world w) - {fd}\<rparr>\<rparr>)),
     sys_freeaddrinfo := (\<lambda>p w. returns ((), w\<lparr>world := (world w)\<lparr>infos := infos (world w) - set_option p\<rparr>\<rparr>)),
     sys_timer_delete := (\<lambda>t w. returns (0, w\<lparr>world := (world w)\<lparr>timers := timers (world w) - {t}\<rparr>\<rparr>)),
     sys_setsockopt := (\<lambda>_. retP 0), sys_bind := (\<lambda>_ _. retP 0), sys_listen := (\<lambda>_ _. retP 0), sys_signal := (\<lambda>_. retP True),
     sys_sem_init := retP 0, sys_timer_settime := (\<lambda>_ _ _. retP 0)\<rparr>"

definition ex_start :: "resources main_state" where
  "ex_start = \<lparr>slh_first = None, node_heap = Map.empty, process = \<lparr>is_terminated = False, timestamp_semaphore = 0,
     result_file_mutex = False, world = \<lparr>sockets = {}, infos = {}, timers = {}\<rparr>\<rparr>\<rparr>"

lemma ex_start_view: "world (process ex_start) = \<lparr>sockets = {}, infos = {}, timers = {}\<rparr>"
  by (simp add: ex_start_def)

lemma ex_resources_connection: "socket_client_create_connection ex_resources fd connection_timeout w =
    (if is_terminated w then returns ((1, - 1), w) else returns ((- 1, - 1), w))"
  by (simp add: ex_resources_def socket_client_create_connection_def bindP_def no_posix_def timespec_add_def add_s64_def
      connection_timeout_def accept_loop.simps [of _ _ _ "- 1"] config_is_terminated_def timespec_is_elapsed_def EAGAIN_def)

lemma ex_resources_ok:
  "resource_system world ex_resources ex_threads" "connections_ok ex_resources fd" "stops ex_resources ex_threads fd"
proof -
  show "resource_system world ex_resources ex_threads"
    by (simp add: resource_system_def creates_def releases_def neutral_def keeps_def globals_apart_def threads_apart_def wp_def
        ex_resources_def no_posix_def ex_threads_def quiet_join_def)
  show "connections_ok ex_resources fd"
    unfolding connections_ok_def ex_resources_connection by (simp add: ex_resources_def)
  show "stops ex_resources ex_threads fd"
    unfolding stops_def
    by (intro exI [of _ "\<lambda>_. 0"])
      (auto simp: application_body_def on_process_def ex_resources_connection ex_threads_def terminate_def
        config_is_terminated_def config_set_is_terminated_def, simp_all add: ex_resources_def)
qed


end
