(* ===== verification/Server_Concurrency.thy ===== *)
theory Server_Concurrency
  imports Worker Driver_Memory "HOL-Library.Sublist"
begin

text \<open>
  The worker threads of the server running together: \<^verbatim>\<open>data_transfer_worker\<close> of \<^verbatim>\<open>server/src/main.c\<close> as
  a step relation in which any worker may move at any time. The steps are the points at which
  another thread can run: each lock and unlock of the result file mutex, each append of a received
  segment, each line sent back, closing the connection and storing the status. The device is the
  abstract one that the driver implements.
\<close>

section \<open>Threads\<close>

text \<open>
  Where a worker is: before its first lock, receiving (with the segments still to come), between
  its two critical sections, sending (with the number of lines sent), about to unlock with a
  verdict, about to close the connection, about to store the status, finished.
\<close>

datatype pc =
    Created
  | AtReceive
  | Receiving "byte list list"
  | AtSend
  | Sending nat
  | AtUnlock ThreadStatus
  | AtClose ThreadStatus
  | AtStatus ThreadStatus
  | Finished

text \<open>
  The state: the device, the holder of the mutex, and per worker its position, status, connection
  and the bytes sent to it. Three fields only record the past: the segments appended so far, in
  order; the workers that entered their receive section with the number of segments each
  appended; and whether no failed append has changed the device so far.
\<close>

record conc =
  device :: device_spec
  holder :: "nat option"
  pcs :: "nat \<Rightarrow> pc"
  statuses :: "nat \<Rightarrow> ThreadStatus"
  connected :: "nat \<Rightarrow> bool"
  replies :: "nat \<Rightarrow> byte list"
  written :: "byte list list"
  blocks_written :: "(nat \<times> nat) list"
  intact :: bool

definition conc_init :: "device_spec \<Rightarrow> conc" where
  "conc_init d0 = \<lparr>device = d0, holder = None, pcs = (\<lambda>_. Created), statuses = (\<lambda>_. UNITITIALIZED),
     connected = (\<lambda>_. True), replies = (\<lambda>_. []), written = [], blocks_written = [], intact = True\<rparr>"

definition goto :: "nat \<Rightarrow> pc \<Rightarrow> conc \<Rightarrow> conc" where
  "goto i p s = s\<lparr>pcs := (pcs s)(i := p)\<rparr>"

text \<open>One more segment appended by worker \<open>i\<close>, whose block is the last one.\<close>

definition count_segment :: "(nat \<times> nat) list \<Rightarrow> (nat \<times> nat) list" where
  "count_segment bs = butlast bs @ [(fst (last bs), Suc (snd (last bs)))]"

text \<open>
  The steps of worker \<open>i\<close>, whose client sends the segments \<open>req i\<close>. A failed append leaves the
  complete lines of the device alone; nothing is assumed about the line in progress.
\<close>

inductive worker_step :: "(nat \<Rightarrow> byte list list) \<Rightarrow> nat \<Rightarrow> conc \<Rightarrow> conc \<Rightarrow> bool" for req where
  start: "pcs s i = Created \<Longrightarrow> worker_step req i s (goto i AtReceive (s\<lparr>statuses := (statuses s)(i := RUNNING)\<rparr>))"
| lock_receive: "pcs s i = AtReceive \<Longrightarrow> holder s = None \<Longrightarrow>
    worker_step req i s (goto i (Receiving (req i)) (s\<lparr>holder := Some i, blocks_written := blocks_written s @ [(i, 0)]\<rparr>))"
| append: "pcs s i = Receiving (d # ds) \<Longrightarrow>
    worker_step req i s (goto i (Receiving ds) (s\<lparr>device := spec_write d (device s), written := written s @ [d],
      blocks_written := count_segment (blocks_written s)\<rparr>))"
| receive_fails: "pcs s i = Receiving ds \<Longrightarrow> spec_log d = spec_log (device s) \<Longrightarrow>
    worker_step req i s (goto i (AtUnlock FAILED) (s\<lparr>device := d, intact := (intact s \<and> d = device s)\<rparr>))"
| unlock_receive: "pcs s i = Receiving [] \<Longrightarrow> worker_step req i s (goto i AtSend (s\<lparr>holder := None\<rparr>))"
| lock_send: "pcs s i = AtSend \<Longrightarrow> holder s = None \<Longrightarrow>
    worker_step req i s (goto i (Sending 0) (s\<lparr>holder := Some i\<rparr>))"
| send: "pcs s i = Sending k \<Longrightarrow> k < length (spec_log (device s)) \<Longrightarrow>
    worker_step req i s (goto i (Sending (Suc k))
      (s\<lparr>replies := (replies s)(i := replies s i @ spec_log (device s) ! k)\<rparr>))"
| send_fails: "pcs s i = Sending k \<Longrightarrow> worker_step req i s (goto i (AtUnlock FAILED) s)"
| sent_all: "pcs s i = Sending k \<Longrightarrow> length (spec_log (device s)) \<le> k \<Longrightarrow>
    worker_step req i s (goto i (AtUnlock SUCCEEDED) s)"
| unlock: "pcs s i = AtUnlock st \<Longrightarrow> worker_step req i s (goto i (AtClose st) (s\<lparr>holder := None\<rparr>))"
| close: "pcs s i = AtClose st \<Longrightarrow>
    worker_step req i s (goto i (AtStatus st) (s\<lparr>connected := (connected s)(i := False)\<rparr>))"
| finish: "pcs s i = AtStatus st \<Longrightarrow>
    worker_step req i s (goto i Finished (s\<lparr>statuses := (statuses s)(i := st)\<rparr>))"

inductive reachable :: "(nat \<Rightarrow> byte list list) \<Rightarrow> device_spec \<Rightarrow> conc \<Rightarrow> bool" for req d0 where
  init: "reachable req d0 (conc_init d0)"
| step: "reachable req d0 s \<Longrightarrow> worker_step req i s s' \<Longrightarrow> reachable req d0 s'"

text \<open>An invariant: it holds at the start and every step from a reachable state keeps it.\<close>

lemma reachable_invariant:
  assumes "reachable req d0 s" and "I (conc_init d0)"
    and "\<And>i s s'. reachable req d0 s \<Longrightarrow> worker_step req i s s' \<Longrightarrow> I s \<Longrightarrow> I s'"
  shows "I s"
  using assms(1) by (induction rule: reachable.induct) (auto intro: assms(2,3))

inductive_cases worker_stepE: "worker_step req i s s'"

lemma goto_simps [simp]:
  "pcs (goto i p s) = (pcs s)(i := p)" "holder (goto i p s) = holder s" "device (goto i p s) = device s"
  "statuses (goto i p s) = statuses s" "connected (goto i p s) = connected s" "replies (goto i p s) = replies s"
  "written (goto i p s) = written s" "blocks_written (goto i p s) = blocks_written s" "intact (goto i p s) = intact s"
  by (simp_all add: goto_def)

section \<open>Mutual exclusion\<close>

fun in_section :: "pc \<Rightarrow> bool" where
  "in_section (Receiving ds) = True"
| "in_section (Sending k) = True"
| "in_section (AtUnlock st) = True"
| "in_section _ = False"

definition lock_inv :: "conc \<Rightarrow> bool" where
  "lock_inv s \<longleftrightarrow> (\<forall>i. in_section (pcs s i) \<longleftrightarrow> holder s = Some i)"

lemma lock_inv_keep:
  "lock_inv s \<Longrightarrow> in_section p = in_section (pcs s i) \<Longrightarrow> holder s' = holder s \<Longrightarrow> pcs s' = (pcs s)(i := p) \<Longrightarrow> lock_inv s'"
  by (simp add: lock_inv_def)

lemma lock_inv_acquire:
  "lock_inv s \<Longrightarrow> holder s = None \<Longrightarrow> in_section p \<Longrightarrow> holder s' = Some i \<Longrightarrow> pcs s' = (pcs s)(i := p) \<Longrightarrow> lock_inv s'"
  by (simp add: lock_inv_def)

lemma lock_inv_release:
  "lock_inv s \<Longrightarrow> in_section (pcs s i) \<Longrightarrow> \<not> in_section p \<Longrightarrow> holder s' = None \<Longrightarrow> pcs s' = (pcs s)(i := p) \<Longrightarrow> lock_inv s'"
  by (simp add: lock_inv_def)

lemma lock_inv_step: "worker_step req i s s' \<Longrightarrow> lock_inv s \<Longrightarrow> lock_inv s'"
proof (induction rule: worker_step.induct)
  case (lock_receive s i)
  then show ?case by (auto intro: lock_inv_acquire [where s = s and i = i and p = "Receiving (req i)"])
next
  case (lock_send s i)
  then show ?case by (auto intro: lock_inv_acquire [where s = s and i = i and p = "Sending 0"])
next
  case (unlock_receive s i)
  then show ?case by (auto intro: lock_inv_release [of s i AtSend])
next
  case (unlock s i st)
  then show ?case by (auto intro: lock_inv_release [of s i "AtClose st"])
qed (erule lock_inv_keep; simp)+

lemma reachable_lock_inv: "reachable req d0 s \<Longrightarrow> lock_inv s"
  by (erule reachable_invariant [where I = lock_inv])
    (simp add: lock_inv_def conc_init_def, blast intro: lock_inv_step)

lemma section_unique: "lock_inv s \<Longrightarrow> in_section (pcs s i) \<Longrightarrow> in_section (pcs s j) \<Longrightarrow> i = j"
  by (simp add: lock_inv_def)

section \<open>Requests are not interleaved\<close>

text \<open>The segments that a list of blocks stands for.\<close>

definition segments :: "(nat \<Rightarrow> byte list list) \<Rightarrow> (nat \<times> nat) list \<Rightarrow> byte list list" where
  "segments req bs = concat (map (\<lambda>(i, n). take n (req i)) bs)"

text \<open>
  A worker, at a position and with a status, has entered its receive section; has sent the whole
  reply; has left its receive section with the whole request appended.
\<close>

fun entered :: "pc \<Rightarrow> bool" where
  "entered Created = False"
| "entered AtReceive = False"
| "entered _ = True"

fun answered :: "pc \<Rightarrow> ThreadStatus \<Rightarrow> bool" where
  "answered (AtUnlock v) st = (v = SUCCEEDED)"
| "answered (AtClose v) st = (v = SUCCEEDED)"
| "answered (AtStatus v) st = (v = SUCCEEDED)"
| "answered Finished st = (st = SUCCEEDED)"
| "answered _ st = False"

fun stored :: "pc \<Rightarrow> ThreadStatus \<Rightarrow> bool" where
  "stored AtSend st = True"
| "stored (Sending k) st = True"
| "stored p st = answered p st"

definition order_inv :: "(nat \<Rightarrow> byte list list) \<Rightarrow> conc \<Rightarrow> bool" where
  "order_inv req s \<longleftrightarrow>
     written s = segments req (blocks_written s) \<and> distinct (map fst (blocks_written s)) \<and>
     (\<forall>i. i \<in> fst ` set (blocks_written s) \<longleftrightarrow> entered (pcs s i)) \<and>
     (\<forall>i ds. pcs s i = Receiving ds \<longrightarrow>
        (\<exists>bs n. blocks_written s = bs @ [(i, n)] \<and> n \<le> length (req i) \<and> ds = drop n (req i))) \<and>
     (\<forall>i. stored (pcs s i) (statuses s i) \<longrightarrow>
        (i, length (req i)) \<in> set (blocks_written s))"

lemma segments_snoc [simp]: "segments req (bs @ [(i, n)]) = segments req bs @ take n (req i)"
  by (simp add: segments_def)

lemma order_invD:
  assumes "order_inv req s"
  shows "written s = segments req (blocks_written s)" and "distinct (map fst (blocks_written s))"
    and "i \<in> fst ` set (blocks_written s) \<longleftrightarrow> entered (pcs s i)"
    and "pcs s i = Receiving ds \<Longrightarrow> \<exists>bs n. blocks_written s = bs @ [(i, n)] \<and> n \<le> length (req i) \<and> ds = drop n (req i)"
    and "stored (pcs s i) (statuses s i) \<Longrightarrow> (i, length (req i)) \<in> set (blocks_written s)"
  using assms unfolding order_inv_def by blast+

text \<open>A step that neither enters nor leaves nor continues a receive section.\<close>

lemma order_inv_keep:
  assumes "order_inv req s" and "written s' = written s" "blocks_written s' = blocks_written s" "pcs s' = (pcs s)(i := p)"
    and "entered p = entered (pcs s i)" "\<forall>ds. p \<noteq> Receiving ds" "\<forall>j. j \<noteq> i \<longrightarrow> statuses s' j = statuses s j"
    and "stored p (statuses s' i) \<Longrightarrow> (i, length (req i)) \<in> set (blocks_written s)"
  shows "order_inv req s'"
  unfolding order_inv_def using assms(2-) order_invD [OF assms(1)] by (auto split: if_splits)

lemma order_inv_enter:
  assumes inv: "order_inv req s" and lock: "lock_inv s" and pc: "pcs s i = AtReceive" and free: "holder s = None"
  shows "order_inv req (goto i (Receiving (req i)) (s\<lparr>holder := Some i, blocks_written := blocks_written s @ [(i, 0)]\<rparr>))"
proof -
  have "pcs s j \<noteq> Receiving ds" for j ds using lock free by (auto simp: lock_inv_def dest!: spec [of _ j])
  moreover have "i \<notin> fst ` set (blocks_written s)" using order_invD(3) [OF inv, of i] pc by simp
  ultimately show ?thesis
    unfolding order_inv_def using order_invD [OF inv] by (auto split: if_splits)
qed

lemma order_inv_append:
  assumes inv: "order_inv req s" and lock: "lock_inv s" and pc: "pcs s i = Receiving (d # ds)"
  shows "order_inv req (goto i (Receiving ds) (s\<lparr>device := a, written := written s @ [d],
      blocks_written := count_segment (blocks_written s)\<rparr>))"
proof -
  obtain bs n where b: "blocks_written s = bs @ [(i, n)]" and n: "n \<le> length (req i)" "d # ds = drop n (req i)"
    using order_invD(4) [OF inv pc] by blast
  have lt: "n < length (req i)" using n by (cases "n = length (req i)") simp_all
  have nth: "req i ! n = d" and ds: "ds = drop (Suc n) (req i)"
    using n(2) lt by (metis Cons_nth_drop_Suc list.inject)+
  then have tk: "take (Suc n) (req i) = take n (req i) @ [d]" using lt by (simp add: take_Suc_conv_app_nth)
  have c: "count_segment (blocks_written s) = bs @ [(i, Suc n)]" by (simp add: count_segment_def b)
  have other: "pcs s j \<noteq> Receiving es" if "j \<noteq> i" for j es
    using section_unique [OF lock, of i j] pc that by auto
  have "written s @ [d] = segments req (bs @ [(i, Suc n)])"
    using order_invD(1) [OF inv] by (simp add: b tk)
  moreover have "distinct (map fst (bs @ [(i, Suc n)]))" using order_invD(2) [OF inv] by (simp add: b)
  moreover have "j \<in> fst ` set (bs @ [(i, Suc n)]) \<longleftrightarrow> entered (((pcs s)(i := Receiving ds)) j)" for j
    using order_invD(3) [OF inv, of j] pc by (auto simp: b)
  moreover have "(j, length (req j)) \<in> set (bs @ [(i, Suc n)])"
    if "stored (((pcs s)(i := Receiving ds)) j) (statuses s j)" for j
    using order_invD(5) [OF inv, of j] that by (auto simp: b split: if_splits)
  ultimately show ?thesis
    unfolding order_inv_def using c other lt ds by auto
qed

lemma order_inv_step: "worker_step req i s s' \<Longrightarrow> lock_inv s \<Longrightarrow> order_inv req s \<Longrightarrow> order_inv req s'"
proof (induction rule: worker_step.induct)
  case (lock_receive s i)
  then show ?case by (intro order_inv_enter)
next
  case (append s i d ds)
  then show ?case by (intro order_inv_append)
next
  case (unlock_receive s i)
  obtain bs n where "blocks_written s = bs @ [(i, n)]" "n \<le> length (req i)" "[] = drop n (req i)"
    using order_invD(4) [OF unlock_receive(3,1)] by blast
  then have "(i, length (req i)) \<in> set (blocks_written s)" by simp
  with unlock_receive show ?case by (auto intro: order_inv_keep [where s = s and i = i and p = AtSend])
next
  case (start s i)
  then show ?case by (auto intro: order_inv_keep [where s = s and i = i and p = AtReceive])
next
  case (receive_fails s i ds d)
  then show ?case by (auto intro: order_inv_keep [where s = s and i = i and p = "AtUnlock FAILED"])
next
  case (lock_send s i)
  then show ?case
    using order_invD(5) [of req s i] by (auto intro: order_inv_keep [where s = s and i = i and p = "Sending 0"])
next
  case (send s i k)
  then show ?case
    using order_invD(5) [of req s i] by (auto intro: order_inv_keep [where s = s and i = i and p = "Sending (Suc k)"])
next
  case (send_fails s i k)
  then show ?case by (auto intro: order_inv_keep [where s = s and i = i and p = "AtUnlock FAILED"])
next
  case (sent_all s i k)
  then show ?case
    using order_invD(5) [of req s i] by (auto intro: order_inv_keep [where s = s and i = i and p = "AtUnlock SUCCEEDED"])
next
  case (unlock s i st)
  then show ?case
    using order_invD(5) [of req s i] by (auto intro: order_inv_keep [where s = s and i = i and p = "AtClose st"])
next
  case (close s i st)
  then show ?case
    using order_invD(5) [of req s i] by (auto intro: order_inv_keep [where s = s and i = i and p = "AtStatus st"])
next
  case (finish s i st)
  then show ?case
    using order_invD(5) [of req s i] by (auto intro: order_inv_keep [where s = s and i = i and p = Finished])
qed

lemma reachable_order_inv: "reachable req d0 s \<Longrightarrow> order_inv req s"
  by (erule reachable_invariant [where I = "order_inv req"])
    (simp add: order_inv_def conc_init_def segments_def, blast intro: order_inv_step reachable_lock_inv)

section \<open>Status and connection\<close>

text \<open>What a worker at a position has made of its status and its connection.\<close>

fun local_ok :: "pc \<Rightarrow> ThreadStatus \<Rightarrow> bool \<Rightarrow> bool" where
  "local_ok Created st c = (st = UNITITIALIZED \<and> c)"
| "local_ok (AtUnlock v) st c = (v \<in> {SUCCEEDED, FAILED} \<and> st = RUNNING \<and> c)"
| "local_ok (AtClose v) st c = (v \<in> {SUCCEEDED, FAILED} \<and> st = RUNNING \<and> c)"
| "local_ok (AtStatus v) st c = (v \<in> {SUCCEEDED, FAILED} \<and> st = RUNNING \<and> \<not> c)"
| "local_ok Finished st c = (st \<in> {SUCCEEDED, FAILED} \<and> \<not> c)"
| "local_ok _ st c = (st = RUNNING \<and> c)"

definition status_inv :: "conc \<Rightarrow> bool" where
  "status_inv s \<longleftrightarrow> (\<forall>i. local_ok (pcs s i) (statuses s i) (connected s i))"

lemma status_invD: "status_inv s \<Longrightarrow> local_ok (pcs s i) (statuses s i) (connected s i)"
  by (simp add: status_inv_def)

lemma status_inv_step:
  assumes "worker_step req i s s'" and "status_inv s"
  shows "status_inv s'"
  using assms(1) status_invD [OF assms(2), of i] assms(2)
  by (elim worker_stepE) (simp_all add: status_inv_def)

lemma reachable_status_inv: "reachable req d0 s \<Longrightarrow> status_inv s"
  by (erule reachable_invariant [where I = status_inv])
    (simp add: status_inv_def conc_init_def, blast intro: status_inv_step)

section \<open>Replies\<close>

lemma segments_block:
  assumes "(i, n) \<in> set bs"
  shows "\<exists>xs ys. segments req bs = xs @ take n (req i) @ ys"
proof -
  obtain as cs where "bs = as @ (i, n) # cs" using split_list [OF assms] by blast
  then have "segments req bs = segments req as @ take n (req i) @ segments req cs" by (simp add: segments_def)
  then show ?thesis by blast
qed

text \<open>The worker has not begun to send.\<close>

fun silent :: "pc \<Rightarrow> bool" where
  "silent Created = True"
| "silent AtReceive = True"
| "silent (Receiving ds) = True"
| "silent AtSend = True"
| "silent _ = False"

text \<open>
  The reply is the whole contents of the device after some of the segments of \<open>ws\<close>, in their order
  and from the first, among which the whole request stands in one piece.
\<close>

definition serial_reply :: "byte list list \<Rightarrow> device_spec \<Rightarrow> byte list list \<Rightarrow> byte list \<Rightarrow> bool" where
  "serial_reply request d0 ws reply \<longleftrightarrow>
     (\<exists>xs ys zs. ws = xs @ request @ ys @ zs \<and> reply = concat (spec_log (fold spec_write (xs @ request @ ys) d0)))"

lemma serial_reply_mono: "serial_reply request d0 ws reply \<Longrightarrow> serial_reply request d0 (ws @ vs) reply"
  unfolding serial_reply_def by (elim exE conjE) (rule exI, rule exI, rule exI, rule conjI, simp, simp)

definition reply_inv :: "(nat \<Rightarrow> byte list list) \<Rightarrow> device_spec \<Rightarrow> conc \<Rightarrow> bool" where
  "reply_inv req d0 s \<longleftrightarrow>
     (intact s \<longrightarrow> device s = fold spec_write (written s) d0) \<and>
     (\<forall>i. silent (pcs s i) \<longrightarrow> replies s i = []) \<and>
     (\<forall>i k. pcs s i = Sending k \<longrightarrow>
        k \<le> length (spec_log (device s)) \<and> replies s i = concat (take k (spec_log (device s)))) \<and>
     (\<forall>i. answered (pcs s i) (statuses s i) \<and> intact s \<longrightarrow> serial_reply (req i) d0 (written s) (replies s i))"

lemma reply_invD:
  assumes "reply_inv req d0 s"
  shows "intact s \<Longrightarrow> device s = fold spec_write (written s) d0" and "silent (pcs s i) \<Longrightarrow> replies s i = []"
    and "pcs s i = Sending k \<Longrightarrow> k \<le> length (spec_log (device s)) \<and> replies s i = concat (take k (spec_log (device s)))"
    and "answered (pcs s i) (statuses s i) \<Longrightarrow> intact s \<Longrightarrow> serial_reply (req i) d0 (written s) (replies s i)"
  using assms unfolding reply_inv_def by blast+

text \<open>A step that leaves the device and the replies alone.\<close>

lemma reply_inv_keep:
  assumes "reply_inv req d0 s" and "device s' = device s" "written s' = written s" "intact s' = intact s"
    "replies s' = replies s" "pcs s' = (pcs s)(i := p)" "\<forall>j. j \<noteq> i \<longrightarrow> statuses s' j = statuses s j"
    and "silent p \<longrightarrow> silent (pcs s i)" "\<And>k. p = Sending k \<Longrightarrow> k = 0 \<and> silent (pcs s i)"
    and "answered p (statuses s' i) \<Longrightarrow> intact s \<Longrightarrow> serial_reply (req i) d0 (written s) (replies s i)"
  shows "reply_inv req d0 s'"
  unfolding reply_inv_def using assms(2-) reply_invD [OF assms(1)] by (auto split: if_splits)

text \<open>A step inside a receive section: no other worker is sending.\<close>

lemma reply_inv_receive:
  assumes inv: "reply_inv req d0 s" and lock: "lock_inv s" and pc: "pcs s i = Receiving ds"
    and "\<exists>vs. written s' = written s @ vs \<and> (intact s' \<longrightarrow> intact s \<and> device s' = fold spec_write vs (device s))"
    and "replies s' = replies s" "pcs s' = (pcs s)(i := p)" "statuses s' = statuses s"
    and "\<forall>k. p \<noteq> Sending k" "\<not> answered p (statuses s i)"
  shows "reply_inv req d0 s'"
proof -
  have other: "pcs s j \<noteq> Sending k" for j k using section_unique [OF lock, of i j] pc by auto
  moreover have "serial_reply (req j) d0 (written s @ vs) (replies s j)"
    if "answered (pcs s j) (statuses s j)" "intact s" for j vs
    using reply_invD(4) [OF inv that] by (rule serial_reply_mono)
  ultimately show ?thesis
    unfolding reply_inv_def using assms(4-) pc reply_invD(1,2) [OF inv] by (auto split: if_splits)
qed

lemma reply_inv_send:
  assumes inv: "reply_inv req d0 s" and lock: "lock_inv s"
    and pc: "pcs s i = Sending k" and k: "k < length (spec_log (device s))"
  shows "reply_inv req d0 (goto i (Sending (Suc k))
      (s\<lparr>replies := (replies s)(i := replies s i @ spec_log (device s) ! k)\<rparr>))"
proof -
  have "concat (take (Suc k) (spec_log (device s))) = replies s i @ spec_log (device s) ! k"
    using reply_invD(3) [OF inv pc] k by (simp add: take_Suc_conv_app_nth)
  then show ?thesis
    unfolding reply_inv_def using pc k reply_invD [OF inv] by auto
qed

lemma reply_inv_sent_all:
  assumes inv: "reply_inv req d0 s" and order: "order_inv req s"
    and pc: "pcs s i = Sending k" and k: "length (spec_log (device s)) \<le> k" and "intact s"
  shows "serial_reply (req i) d0 (written s) (replies s i)"
proof -
  have "(i, length (req i)) \<in> set (blocks_written s)" using order_invD(5) [OF order, of i] pc by simp
  then obtain xs ys where w: "written s = xs @ req i @ ys"
    using segments_block [of i "length (req i)" "blocks_written s" req] order_invD(1) [OF order] by auto
  have "replies s i = concat (spec_log (fold spec_write (written s) d0))"
    using reply_invD(3) [OF inv pc] reply_invD(1) [OF inv \<open>intact s\<close>] k by simp
  then show ?thesis
    unfolding serial_reply_def w by (intro exI [of _ xs] exI [of _ ys] exI [of _ "[]"]) (simp add: w)
qed

lemma reply_inv_step:
  "worker_step req i s s' \<Longrightarrow> lock_inv s \<Longrightarrow> order_inv req s \<Longrightarrow> status_inv s \<Longrightarrow> reply_inv req d0 s \<Longrightarrow> reply_inv req d0 s'"
proof (induction rule: worker_step.induct)
  case (append s i d ds)
  then show ?case by - (rule reply_inv_receive [where s = s and i = i and ds = "d # ds" and p = "Receiving ds"]; simp)
next
  case (receive_fails s i ds d)
  then show ?case by - (rule reply_inv_receive [where s = s and i = i and ds = ds and p = "AtUnlock FAILED"]; simp)
next
  case (send s i k)
  then show ?case by (rule_tac reply_inv_send)
next
  case (sent_all s i k)
  then have "intact s \<Longrightarrow> serial_reply (req i) d0 (written s) (replies s i)" by (rule_tac reply_inv_sent_all)
  then show ?case using sent_all by - (rule reply_inv_keep [where s = s and i = i and p = "AtUnlock SUCCEEDED"]; simp)
next
  case (start s i)
  then show ?case by - (rule reply_inv_keep [where s = s and i = i and p = AtReceive]; simp)
next
  case (lock_receive s i)
  then show ?case by - (rule reply_inv_keep [where s = s and i = i and p = "Receiving (req i)"]; simp)
next
  case (unlock_receive s i)
  then show ?case by - (rule reply_inv_keep [where s = s and i = i and p = AtSend]; simp)
next
  case (lock_send s i)
  then show ?case by - (rule reply_inv_keep [where s = s and i = i and p = "Sending 0"]; simp)
next
  case (send_fails s i k)
  then show ?case by - (rule reply_inv_keep [where s = s and i = i and p = "AtUnlock FAILED"]; simp)
next
  case (unlock s i st)
  then show ?case using reply_invD(4) [of req d0 s i] by - (rule reply_inv_keep [where s = s and i = i and p = "AtClose st"]; simp)
next
  case (close s i st)
  then show ?case using reply_invD(4) [of req d0 s i] by - (rule reply_inv_keep [where s = s and i = i and p = "AtStatus st"]; simp)
next
  case (finish s i st)
  then show ?case using reply_invD(4) [of req d0 s i] by - (rule reply_inv_keep [where s = s and i = i and p = Finished]; simp)
qed

lemma reachable_reply_inv: "reachable req d0 s \<Longrightarrow> reply_inv req d0 s"
  by (erule reachable_invariant [where I = "reply_inv req d0"])
    (simp add: reply_inv_def conc_init_def,
      blast intro: reply_inv_step reachable_lock_inv reachable_order_inv reachable_status_inv)

section \<open>Schedules\<close>

text \<open>A run of the system in which the workers of a schedule move in turn.\<close>

inductive runs :: "(nat \<Rightarrow> byte list list) \<Rightarrow> conc \<Rightarrow> nat list \<Rightarrow> conc \<Rightarrow> bool" for req where
  none: "runs req s [] s"
| more: "worker_step req i s s' \<Longrightarrow> runs req s' js s'' \<Longrightarrow> runs req s (i # js) s''"

inductive_simps runs_simps [simp]: "runs req s [] s'" "runs req s (i # js) s'"

lemma runs_reachable: "runs req s js s' \<Longrightarrow> reachable req d0 s \<Longrightarrow> reachable req d0 s'"
  by (induction rule: runs.induct) (blast intro: reachable.step)+

lemma runs_append: "runs req s js s' \<Longrightarrow> runs req s' ks s'' \<Longrightarrow> runs req s (js @ ks) s''"
  by (induction rule: runs.induct) auto

text \<open>The step of a worker in which nothing fails, if it can move.\<close>

definition next_state :: "(nat \<Rightarrow> byte list list) \<Rightarrow> nat \<Rightarrow> conc \<Rightarrow> conc option" where
  "next_state req i s =
     (case pcs s i of
        Created \<Rightarrow> Some (goto i AtReceive (s\<lparr>statuses := (statuses s)(i := RUNNING)\<rparr>))
      | AtReceive \<Rightarrow> if holder s = None
          then Some (goto i (Receiving (req i)) (s\<lparr>holder := Some i, blocks_written := blocks_written s @ [(i, 0)]\<rparr>)) else None
      | Receiving [] \<Rightarrow> Some (goto i AtSend (s\<lparr>holder := None\<rparr>))
      | Receiving (d # ds) \<Rightarrow> Some (goto i (Receiving ds) (s\<lparr>device := spec_write d (device s), written := written s @ [d],
          blocks_written := count_segment (blocks_written s)\<rparr>))
      | AtSend \<Rightarrow> if holder s = None then Some (goto i (Sending 0) (s\<lparr>holder := Some i\<rparr>)) else None
      | Sending k \<Rightarrow> Some (if k < length (spec_log (device s))
          then goto i (Sending (Suc k)) (s\<lparr>replies := (replies s)(i := replies s i @ spec_log (device s) ! k)\<rparr>)
          else goto i (AtUnlock SUCCEEDED) s)
      | AtUnlock st \<Rightarrow> Some (goto i (AtClose st) (s\<lparr>holder := None\<rparr>))
      | AtClose st \<Rightarrow> Some (goto i (AtStatus st) (s\<lparr>connected := (connected s)(i := False)\<rparr>))
      | AtStatus st \<Rightarrow> Some (goto i Finished (s\<lparr>statuses := (statuses s)(i := st)\<rparr>))
      | Finished \<Rightarrow> None)"

lemma next_state_step: "next_state req i s = Some s' \<Longrightarrow> worker_step req i s s'"
  unfolding next_state_def
  by (auto split: pc.splits list.splits if_splits intro: worker_step.intros)

fun execute :: "(nat \<Rightarrow> byte list list) \<Rightarrow> conc \<Rightarrow> nat list \<Rightarrow> conc option" where
  "execute req s [] = Some s"
| "execute req s (i # js) = (case next_state req i s of None \<Rightarrow> None | Some s' \<Rightarrow> execute req s' js)"

lemma execute_runs: "execute req s js = Some s' \<Longrightarrow> runs req s js s'"
  by (induction js arbitrary: s) (auto split: option.splits intro: runs.intros next_state_step)

section \<open>Termination\<close>

text \<open>
  A bound for the steps that a worker with a request of \<open>n\<close> segments can still take. The device
  keeps at most ten lines.
\<close>

fun rank :: "nat \<Rightarrow> pc \<Rightarrow> nat" where
  "rank n Created = n + 18"
| "rank n AtReceive = n + 17"
| "rank n (Receiving ds) = length ds + 16"
| "rank n AtSend = 15"
| "rank n (Sending k) = 10 - k + 4"
| "rank n (AtUnlock st) = 3"
| "rank n (AtClose st) = 2"
| "rank n (AtStatus st) = 1"
| "rank n Finished = 0"

lemma spec_write_bounded:
  "length (spec_log d) \<le> 10 \<Longrightarrow> length (spec_log (spec_write b d)) \<le> 10"
  by (auto simp: spec_write_def lastn_def Let_def)

lemma worker_step_rank:
  assumes "worker_step req i s s'" and "length (spec_log (device s)) \<le> 10"
  shows "rank (length (req i)) (pcs s' i) < rank (length (req i)) (pcs s i)"
    and "j \<noteq> i \<Longrightarrow> pcs s' j = pcs s j" and "length (spec_log (device s')) \<le> 10"
  using assms by (elim worker_stepE; simp add: spec_write_bounded)+

lemma runs_rank:
  assumes "runs req s js s'" and "length (spec_log (device s)) \<le> 10" and "set js \<subseteq> {..<N}"
  shows "length js + (\<Sum>i<N. rank (length (req i)) (pcs s' i)) \<le> (\<Sum>i<N. rank (length (req i)) (pcs s i))"
  using assms
proof (induction rule: runs.induct)
  case (more i s s' js s'')
  note w = worker_step_rank [OF more(1,4)]
  have "(\<Sum>i<N. rank (length (req i)) (pcs s' i)) < (\<Sum>i<N. rank (length (req i)) (pcs s i))"
  proof (rule sum_strict_mono_ex1)
    show "\<forall>j\<in>{..<N}. rank (length (req j)) (pcs s' j) \<le> rank (length (req j)) (pcs s j)"
    proof
      fix j
      show "rank (length (req j)) (pcs s' j) \<le> rank (length (req j)) (pcs s j)"
        using w(1) w(2) [of j] by (cases "j = i") simp_all
    qed
    show "\<exists>j\<in>{..<N}. rank (length (req j)) (pcs s' j) < rank (length (req j)) (pcs s j)"
      using w(1) more.prems by auto
  qed simp
  with more.IH [OF w(3)] more.prems show ?case by simp
qed simp

lemma runs_untouched: "runs req s js s' \<Longrightarrow> i \<notin> set js \<Longrightarrow> pcs s' i = pcs s i"
  by (induction rule: runs.induct) (auto elim!: worker_stepE)

text \<open>Unless all have finished, some worker can move: the holder of the mutex always can.\<close>

lemma section_moves: "in_section (pcs s i) \<Longrightarrow> \<exists>s'. next_state req i s = Some s'"
  by (cases "pcs s i") (auto simp: next_state_def split: list.splits)

lemma not_stuck:
  assumes "lock_inv s" and "pcs s i \<noteq> Finished"
  shows "(\<exists>s'. worker_step req i s s') \<or> (\<exists>j s'. in_section (pcs s j) \<and> worker_step req j s s')"
proof (cases "next_state req i s")
  case (Some s')
  then show ?thesis using next_state_step by blast
next
  case None
  then obtain h where "holder s = Some h"
    using assms(2) by (auto simp: next_state_def split: pc.splits list.splits if_splits)
  then have "in_section (pcs s h)" using assms(1) by (simp add: lock_inv_def)
  then show ?thesis using section_moves next_state_step by metis
qed

text \<open>A worker that runs alone.\<close>

lemma lone_receive:
  assumes "pcs s i = Receiving ds"
  shows "\<exists>n s'. runs req s (replicate n i) s' \<and> pcs s' i = Receiving [] \<and> holder s' = holder s \<and>
    device s' = fold spec_write ds (device s) \<and> replies s' = replies s \<and> connected s' = connected s"
  using assms
proof (induction ds arbitrary: s)
  case Nil
  then show ?case by (intro exI [of _ 0] exI [of _ s]) (simp add: runs.none)
next
  case (Cons d ds)
  let ?s = "goto i (Receiving ds) (s\<lparr>device := spec_write d (device s), written := written s @ [d],
      blocks_written := count_segment (blocks_written s)\<rparr>)"
  obtain n s' where "runs req ?s (replicate n i) s'" "pcs s' i = Receiving []" "holder s' = holder s"
    "device s' = fold spec_write ds (spec_write d (device s))" "replies s' = replies s" "connected s' = connected s"
    using Cons.IH [of ?s] by auto
  with worker_step.append [OF Cons.prems] show ?case
    by (intro exI [of _ "Suc n"] exI [of _ s']) (auto intro: runs.more)
qed

lemma lone_send:
  assumes "pcs s i = Sending k" and "length (spec_log (device s)) = k + m"
  shows "\<exists>s'. runs req s (replicate m i) s' \<and> pcs s' i = Sending (k + m) \<and> holder s' = holder s \<and> device s' = device s \<and>
    replies s' = (replies s)(i := replies s i @ concat (drop k (spec_log (device s)))) \<and> connected s' = connected s"
  using assms
proof (induction m arbitrary: s k)
  case 0
  then show ?case by (intro exI [of _ s]) (simp add: runs.none)
next
  case (Suc m)
  let ?s = "goto i (Sending (Suc k)) (s\<lparr>replies := (replies s)(i := replies s i @ spec_log (device s) ! k)\<rparr>)"
  have k: "k < length (spec_log (device s))" using Suc.prems by simp
  have "pcs ?s i = Sending (Suc k)" "length (spec_log (device ?s)) = Suc k + m" using Suc.prems by simp_all
  from Suc.IH [OF this] obtain s' where s': "runs req ?s (replicate m i) s'" "pcs s' i = Sending (Suc k + m)"
      "holder s' = holder ?s" "device s' = device ?s" "connected s' = connected ?s"
    and r: "replies s' = (replies ?s)(i := replies ?s i @ concat (drop (Suc k) (spec_log (device ?s))))"
    by (elim exE conjE) (rule that)
  have "replies s' = (replies s)(i := replies s i @ concat (drop k (spec_log (device s))))"
    unfolding r using k by (simp flip: Cons_nth_drop_Suc)
  moreover have "runs req s (replicate (Suc m) i) s'"
    using runs.more [OF worker_step.send [OF Suc.prems(1) k] s'(1)] by simp
  ultimately show ?case using s' by (intro exI [of _ s'] conjI) simp_all
qed

lemma lone_worker:
  assumes "pcs s i = Created" and "holder s = None"
  shows "\<exists>n s'. runs req s (replicate n i) s' \<and> pcs s' i = Finished \<and> holder s' = None \<and>
    device s' = fold spec_write (req i) (device s) \<and> statuses s' i = SUCCEEDED \<and> \<not> connected s' i \<and>
    replies s' i = replies s i @ concat (spec_log (device s'))"
proof -
  let ?s1 = "goto i AtReceive (s\<lparr>statuses := (statuses s)(i := RUNNING)\<rparr>)"
  let ?s2 = "goto i (Receiving (req i)) (?s1\<lparr>holder := Some i, blocks_written := blocks_written ?s1 @ [(i, 0)]\<rparr>)"
  have r1: "runs req s [i, i] ?s2"
    by (rule execute_runs) (simp add: next_state_def assms)
  have "pcs ?s2 i = Receiving (req i)" by simp
  from lone_receive [OF this, of req] obtain n s3 where r2: "runs req ?s2 (replicate n i) s3" and
    s3: "pcs s3 i = Receiving []" "device s3 = fold spec_write (req i) (device ?s2)" "replies s3 = replies ?s2"
    by (elim exE conjE) (rule that)
  let ?s4 = "goto i AtSend (s3\<lparr>holder := None\<rparr>)"
  let ?s5 = "goto i (Sending 0) (?s4\<lparr>holder := Some i\<rparr>)"
  have r3: "runs req s3 [i, i] ?s5"
    by (rule execute_runs) (simp add: next_state_def s3(1))
  have "pcs ?s5 i = Sending 0" "length (spec_log (device ?s5)) = 0 + length (spec_log (device s3))" by simp_all
  from lone_send [OF this, of req] obtain s6 where r4: "runs req ?s5 (replicate (length (spec_log (device s3))) i) s6" and
    s6: "pcs s6 i = Sending (0 + length (spec_log (device s3)))" "device s6 = device ?s5"
      "replies s6 = (replies ?s5)(i := replies ?s5 i @ concat (drop 0 (spec_log (device ?s5))))"
    by (elim exE conjE) (rule that)
  let ?s7 = "goto i (AtUnlock SUCCEEDED) s6"
  let ?s8 = "goto i (AtClose SUCCEEDED) (?s7\<lparr>holder := None\<rparr>)"
  let ?s9 = "goto i (AtStatus SUCCEEDED) (?s8\<lparr>connected := (connected ?s8)(i := False)\<rparr>)"
  let ?s10 = "goto i Finished (?s9\<lparr>statuses := (statuses ?s9)(i := SUCCEEDED)\<rparr>)"
  have r5: "runs req s6 [i, i, i, i] ?s10"
    by (rule execute_runs) (simp add: next_state_def s6(1,2))
  have "[i, i] @ replicate n i @ [i, i] @ replicate (length (spec_log (device s3))) i @ [i, i, i, i] =
      replicate (n + length (spec_log (device s3)) + 8) i"
    by (auto intro: replicate_eqI)
  then have "runs req s (replicate (n + length (spec_log (device s3)) + 8) i) ?s10"
    using runs_append [OF r1 runs_append [OF r2 runs_append [OF r3 runs_append [OF r4 r5]]]] by simp
  then show ?thesis
    using s3 s6 by (intro exI [of _ "n + length (spec_log (device s3)) + 8"] exI [of _ ?s10]) simp
qed

section \<open>Properties\<close>

text \<open>
  An example: an empty device and two workers, the first with a request in two segments. They
  start together; the second is served while the first waits between its two sections.
\<close>

definition ex_req :: "nat \<Rightarrow> byte list list" where
  "ex_req i = (if i = 0 then [[97], [98, 10]] else [[99, 10]])"

definition ex_device :: device_spec where
  "ex_device = \<lparr>spec_log = [], spec_staged = []\<rparr>"

definition ex_schedule :: "nat list" where
  "ex_schedule = [0, 1, 0, 0, 0, 0, 1, 1, 1, 1, 1, 1, 1, 1, 1, 1, 0]"

lemma execute_reachable: "execute req (conc_init d0) js = Some s \<Longrightarrow> reachable req d0 s"
  using runs_reachable [OF execute_runs reachable.init] .

definition ex_final :: conc where
  "ex_final = the (execute ex_req (conc_init ex_device) ex_schedule)"

lemmas conc_eval = ex_req_def ex_device_def ex_schedule_def conc_init_def next_state_def count_segment_def spec_write_def lastn_def

lemma ex_run:
  "execute ex_req (conc_init ex_device) ex_schedule = Some ex_final"
  "pcs ex_final 0 = Sending 0" "pcs ex_final 1 = Finished" "statuses ex_final 1 = SUCCEEDED" "holder ex_final = Some 0"
  "intact ex_final" "written ex_final = [[97], [98, 10], [99, 10]]" "replies ex_final 1 = [97, 98, 10, 99, 10]"
  by (simp_all add: ex_final_def conc_eval)

text \<open>
  Property C28. Mutual exclusion: in every reachable state of any number of workers, a worker is
  inside one of its critical sections exactly when it holds the result file mutex, so that no two
  workers ever access the device at the same time.
\<close>

theorem workers_exclude_each_other:
  assumes "reachable req d0 s"
  shows "(in_section (pcs s i) \<longleftrightarrow> holder s = Some i) \<and>
    (in_section (pcs s i) \<and> in_section (pcs s j) \<longrightarrow> i = j)"
  using reachable_lock_inv [OF assms] by (auto simp: lock_inv_def)

theorem workers_exclude_each_other_witness:
  "in_section (pcs ex_final 0) \<and> holder ex_final = Some 0 \<and> \<not> in_section (pcs ex_final 1)"
  using workers_exclude_each_other [OF execute_reachable [OF ex_run(1)], of 0 1] ex_run(5) by auto





text \<open>
  Property C31. A final status is final: once the main thread can read SUCCEEDED or FAILED from a
  worker's entry, the worker has closed its connection, does not hold the mutex and takes no
  further step, so joining it cannot block on the mutex or on the client.
\<close>

theorem completed_status_is_final:
  assumes "reachable req d0 s" and "statuses s i = SUCCEEDED \<or> statuses s i = FAILED"
  shows "\<not> connected s i \<and> holder s \<noteq> Some i \<and> \<not> worker_step req i s s'"
proof -
  have fin: "pcs s i = Finished" and c: "\<not> connected s i"
    using status_invD [OF reachable_status_inv [OF assms(1)], of i] assms(2) by (cases "pcs s i"; auto)+
  have "\<not> worker_step req i s s'" using fin by (auto elim: worker_stepE)
  moreover have "holder s \<noteq> Some i"
    using reachable_lock_inv [OF assms(1)] fin by (auto simp: lock_inv_def dest!: spec [of _ i])
  ultimately show ?thesis using c by blast
qed

theorem completed_status_is_final_witness:
  "\<not> connected ex_final 1 \<and> holder ex_final \<noteq> Some 1 \<and> \<not> worker_step ex_req 1 ex_final ex_final"
  using completed_status_is_final [OF execute_reachable [OF ex_run(1)], of 1] ex_run(4) by simp



end
