(* ===== verification/Slist_Macros.thy ===== *)
theory Slist_Macros
  imports Slist
begin

text \<open>
  The other \<^verbatim>\<open>SLIST\<close> macros of \<^verbatim>\<open>server/include/queue.h\<close>, which the server does not expand: inserting after
  an element, concatenating and exchanging two lists and the remaining loops. A second list head
  is a pointer beside the list; its nodes live in the same heap.
\<close>

section \<open>Insertion, concatenation, exchange\<close>

definition SLIST_INSERT_AFTER :: "node_ptr \<Rightarrow> node_ptr \<Rightarrow> 'w thread_list \<Rightarrow> fault + 'w thread_list" where
  "SLIST_INSERT_AFTER slistelm elm h =
     bindE (SLIST_NEXT slistelm h) (\<lambda>q. bindE (set_next elm q h) (set_next slistelm elm))"

definition SLIST_CONCAT :: "'w thread_list \<Rightarrow> node_ptr \<Rightarrow> (fault + 'w thread_list \<times> node_ptr) option" where
  "SLIST_CONCAT h head2 =
     (let curelm = SLIST_FIRST h in
      if curelm = None then
        let h1 = h\<lparr>slh_first := head2\<rparr> in returns (h1, if slh_first h1 \<noteq> None then None else head2)
      else if head2 \<noteq> None then
        bindT (find_end SLIST_NEXT curelm h) (\<lambda>last_elm.
        bindT (Some (set_next last_elm head2 h)) (\<lambda>h1. returns (h1, None)))
      else returns (h, head2))"

definition SLIST_SWAP :: "'w thread_list \<Rightarrow> node_ptr \<Rightarrow> 'w thread_list \<times> node_ptr" where
  "SLIST_SWAP h head2 = (let swap_first = SLIST_FIRST h in (h\<lparr>slh_first := head2\<rparr>, swap_first))"

section \<open>Loops\<close>

definition SLIST_FOREACH where
  "SLIST_FOREACH body st = foreach SLIST_NEXT body (SLIST_FIRST (snd st)) st"

definition SLIST_FOREACH_FROM where
  "SLIST_FOREACH_FROM body var st =
     foreach SLIST_NEXT body (if var \<noteq> None then var else SLIST_FIRST (snd st)) st"

definition SLIST_FOREACH_FROM_SAFE where
  "SLIST_FOREACH_FROM_SAFE body var st =
     foreach_safe SLIST_NEXT body (if var \<noteq> None then var else SLIST_FIRST (snd st)) st"

text \<open>
  \<^verbatim>\<open>SLIST_FOREACH_PREVPTR\<close> walks with a pointer to the link that leads to the current element: the
  head of the list or the link of the element before.
\<close>

datatype link = HeadLink | LinkOf nat

definition read_link :: "link \<Rightarrow> 'w thread_list \<Rightarrow> fault + node_ptr" where
  "read_link varp h = (case varp of HeadLink \<Rightarrow> Inr (SLIST_FIRST h) | LinkOf x \<Rightarrow> SLIST_NEXT (Some x) h)"

partial_function (option) foreach_prevptr ::
  "(nat \<Rightarrow> link \<Rightarrow> 'c \<times> 'w thread_list \<Rightarrow> (fault + 'c \<times> 'w thread_list) option) \<Rightarrow> link \<Rightarrow>
   'c \<times> 'w thread_list \<Rightarrow> (fault + 'c \<times> 'w thread_list) option" where
  "foreach_prevptr body varp st =
     bindT (Some (read_link varp (snd st))) (\<lambda>var.
       case var of
         None \<Rightarrow> returns st
       | Some x \<Rightarrow> bindT (body x varp st) (\<lambda>st'. foreach_prevptr body (LinkOf x) st'))"

definition SLIST_FOREACH_PREVPTR where
  "SLIST_FOREACH_PREVPTR body st = foreach_prevptr body HeadLink st"

section \<open>Effect on lists\<close>

lemma slist_insert_after_lists:
  assumes "is_slist h (xs @ x # ys)" and "node_heap h z = Some n" and "z \<notin> set (xs @ x # ys)"
  obtains h' where "SLIST_INSERT_AFTER (Some x) (Some z) h = Inr h'" and "is_slist h' (xs @ x # z # ys)"
    and "payload h' = payload h" and "process h' = process h"
proof -
  obtain m where m: "node_heap h x = Some m" using lists_alloc [OF assms(1), of x] by auto
  have zx: "z \<noteq> x" using assms(3) by auto
  let ?H = "(node_heap h)(z \<mapsto> n\<lparr>nodes := head_ptr ys\<rparr>)"
  let ?h' = "h\<lparr>node_heap := ?H(x \<mapsto> m\<lparr>nodes := Some z\<rparr>)\<rparr>"
  have "SLIST_INSERT_AFTER (Some x) (Some z) h = Inr ?h'"
    using lists_next [OF assms(1)] assms(2) m zx by (simp add: SLIST_INSERT_AFTER_def set_next_def deref_def)
  moreover have "is_slist ?h' (xs @ x # z # ys)"
    using assms(1,3) zx unfolding lists_split by (auto simp: segment_frame)
  moreover have "payload ?h' = payload h" using assms(2) m zx by (auto simp: payload_def)
  ultimately show thesis by (rule that) simp
qed

text \<open>Concatenation appends the second list and empties it; both lists are at most read otherwise.\<close>

lemma slist_concat_lists:
  assumes "is_slist h xs" and "segment (node_heap h) head2 ys None" and "distinct (xs @ ys)"
  obtains h' where "SLIST_CONCAT h head2 = returns (h', None)" and "is_slist h' (xs @ ys)"
    and "payload h' = payload h" and "process h' = process h"
proof (cases xs rule: rev_cases)
  case Nil
  then show thesis
    using that [of "h\<lparr>slh_first := head2\<rparr>"] assms lists_first [OF assms(1)]
    by (cases head2) (auto simp: SLIST_CONCAT_def is_slist_def)
next
  case (snoc ws y)
  have first: "SLIST_FIRST h = head_ptr (ws @ [y])" "SLIST_FIRST h \<noteq> None"
    using lists_first [OF assms(1)] snoc by simp_all
  show thesis
  proof (cases "head2 = None")
    case True
    then have "ys = []" using segment_head [OF assms(2)] by simp
    with True first assms(1) show thesis by (intro that [of h]) (simp_all add: SLIST_CONCAT_def Let_def)
  next
    case False
    obtain n where n: "node_heap h y = Some n" using lists_alloc [OF assms(1), of y] snoc by auto
    let ?h' = "h\<lparr>node_heap := (node_heap h)(y \<mapsto> n\<lparr>nodes := head2\<rparr>)\<rparr>"
    have "find_end SLIST_NEXT (SLIST_FIRST h) h = returns (Some y)"
      using slist_walk.find_end_listed [of h "[]" ws y] assms(1) snoc first by simp
    then have "SLIST_CONCAT h head2 = returns (?h', None)"
      using False first n by (simp add: SLIST_CONCAT_def Let_def set_next_def deref_def)
    moreover have "segment (node_heap h) (slh_first h) ws (Some y)"
      using assms(1) snoc lists_split [of h ws y "[]"] by simp
    then have "is_slist ?h' (ws @ y # ys)"
      using assms(2,3) snoc segment_head [OF assms(2)] unfolding lists_split by (auto simp: segment_frame)
    then have "is_slist ?h' (xs @ ys)" using snoc by simp
    ultimately show thesis by (rule that) (simp_all add: n payload_relink)
  qed
qed

lemma slist_swap_lists:
  assumes "is_slist h xs" and "segment (node_heap h) head2 ys None" and "distinct ys"
    and "SLIST_SWAP h head2 = (h', head2')"
  shows "is_slist h' ys" and "segment (node_heap h') head2' xs None" and "SLIST_SWAP h' head2' = (h, head2)"
  using assms by (auto simp: SLIST_SWAP_def SLIST_FIRST_def is_slist_def)

lemma SLIST_FOREACH_lists:
  assumes "\<And>x c. x \<in> set xs \<Longrightarrow> body (Some x) (c, h) = returns (f x c, h)" and "is_slist h xs"
  shows "SLIST_FOREACH body (c, h) = returns (fold f xs c, h)"
    and "SLIST_FOREACH_FROM body None (c, h) = returns (fold f xs c, h)"
    and "SLIST_FOREACH_FROM_SAFE body None (c, h) = returns (fold f xs c, h)"
  using slist_walk.foreach_fold [of xs body h f "[]" c] lists_first [OF assms(2)] assms
  by (simp_all add: SLIST_FOREACH_def SLIST_FOREACH_FROM_def SLIST_FOREACH_FROM_SAFE_def)

lemma foreach_prevptr_lists:
  assumes "\<And>x l c. x \<in> set (pre @ xs) \<Longrightarrow> body x l (c, h) = returns (f x c, h)" and "is_slist h (pre @ xs)"
    and "read_link l h = Inr (head_ptr xs)"
  shows "foreach_prevptr body l (c, h) = returns (fold f xs c, h)"
  using assms
proof (induction xs arbitrary: pre l c)
  case Nil
  then show ?case by (simp add: foreach_prevptr.simps)
next
  case (Cons x xs)
  have "read_link (LinkOf x) h = Inr (head_ptr xs)"
    using lists_next [OF Cons.prems(2)] by (simp add: read_link_def)
  then have "foreach_prevptr body (LinkOf x) (f x c, h) = returns (fold f xs (f x c), h)"
    using Cons.IH [of "pre @ [x]" "LinkOf x" "f x c"] Cons.prems(1,2) by simp
  then show ?case using Cons.prems(1,3) by (simp add: foreach_prevptr.simps [of _ l])
qed

lemma SLIST_FOREACH_PREVPTR_lists:
  assumes "\<And>x l c. x \<in> set xs \<Longrightarrow> body x l (c, h) = returns (f x c, h)" and "is_slist h xs"
  shows "SLIST_FOREACH_PREVPTR body (c, h) = returns (fold f xs c, h)"
  using foreach_prevptr_lists [of "[]" xs body h f HeadLink c] assms lists_first [OF assms(2)]
  by (simp add: SLIST_FOREACH_PREVPTR_def read_link_def)

end
