(* ===== verification/Queue_Heap.thy ===== *)
theory Queue_Heap
  imports Linked_Loops
begin

text \<open>
  The memory that the \<^verbatim>\<open>STAILQ\<close>, \<^verbatim>\<open>LIST\<close> and \<^verbatim>\<open>TAILQ\<close> macros of \<^verbatim>\<open>server/include/queue.h\<close> work on, and
  the shape of lists in it.
\<close>

section \<open>Memory\<close>

text \<open>
  The linkage structures: the head of a list and the entry field of an element. Both start with
  a pointer to an element, at the same offset, so the structure also stands for the address of
  that pointer (\<^verbatim>\<open>struct type **\<close>).
\<close>

datatype obj = Head nat | Elem nat

lemma obj_image_simps [simp]: "Head l \<notin> Elem ` A" "Elem x \<in> Elem ` A \<longleftrightarrow> x \<in> A"
  by auto

text \<open>
  \<open>fwd\<close> holds the first member of a structure (\<^verbatim>\<open>stqh_first\<close>, \<^verbatim>\<open>lh_first\<close>, \<^verbatim>\<open>tqh_first\<close> of a head;
  \<^verbatim>\<open>stqe_next\<close>, \<^verbatim>\<open>le_next\<close>, \<^verbatim>\<open>tqe_next\<close> of an element), \<open>bwd\<close> the second (\<^verbatim>\<open>stqh_last\<close>, \<^verbatim>\<open>tqh_last\<close>; \<^verbatim>\<open>le_prev\<close>,
  \<^verbatim>\<open>tqe_prev\<close>), the address of a pointer. A member that is not there is outside of the domain.
\<close>

record links =
  fwd :: "obj \<rightharpoonup> nat option"
  bwd :: "obj \<rightharpoonup> obj"

definition load_fwd :: "obj \<Rightarrow> links \<Rightarrow> fault + nat option" where
  "load_fwd s h = (case fwd h s of None \<Rightarrow> Inl UseAfterFree | Some p \<Rightarrow> Inr p)"

definition load_bwd :: "obj \<Rightarrow> links \<Rightarrow> fault + obj" where
  "load_bwd s h = (case bwd h s of None \<Rightarrow> Inl UseAfterFree | Some p \<Rightarrow> Inr p)"

definition store_fwd :: "obj \<Rightarrow> nat option \<Rightarrow> links \<Rightarrow> fault + links" where
  "store_fwd s p h = (if fwd h s = None then Inl UseAfterFree else Inr (h\<lparr>fwd := (fwd h)(s \<mapsto> p)\<rparr>))"

definition store_bwd :: "obj \<Rightarrow> obj \<Rightarrow> links \<Rightarrow> fault + links" where
  "store_bwd s q h = (if bwd h s = None then Inl UseAfterFree else Inr (h\<lparr>bwd := (bwd h)(s \<mapsto> q)\<rparr>))"

text \<open>The entry field of the element a pointer points to, and the element whose entry field starts at an address.\<close>

definition entry_of :: "nat option \<Rightarrow> fault + obj" where
  "entry_of p = (case p of None \<Rightarrow> Inl NullDeref | Some x \<Rightarrow> Inr (Elem x))"

definition container_of :: "obj \<Rightarrow> fault + nat option" where
  "container_of s = (case s of Head l \<Rightarrow> Inl BadConversion | Elem x \<Rightarrow> Inr (Some x))"

lemma memory_simps [simp]:
  "fwd h s = Some p \<Longrightarrow> load_fwd s h = Inr p"
  "bwd h s = Some q \<Longrightarrow> load_bwd s h = Inr q"
  "fwd h s = Some p' \<Longrightarrow> store_fwd s p h = Inr (h\<lparr>fwd := (fwd h)(s \<mapsto> p)\<rparr>)"
  "bwd h s = Some q' \<Longrightarrow> store_bwd s q h = Inr (h\<lparr>bwd := (bwd h)(s \<mapsto> q)\<rparr>)"
  "entry_of (Some x) = Inr (Elem x)" "container_of (Elem x) = Inr (Some x)"
  by (simp_all add: load_fwd_def load_bwd_def store_fwd_def store_bwd_def entry_of_def container_of_def)

text \<open>An element is freed.\<close>

definition free_elem :: "nat option \<Rightarrow> links \<Rightarrow> fault + links" where
  "free_elem p h = bindE (entry_of p) (\<lambda>e.
     if fwd h e = None then Inl BadFree else Inr (h\<lparr>fwd := (fwd h)(e := None), bwd := (bwd h)(e := None)\<rparr>))"

section \<open>Chains\<close>

text \<open>
  \<open>chained F s xs p\<close>: starting with the pointer at \<open>s\<close>, the pointers lead through the elements \<open>xs\<close>, and
  the last one is \<open>p\<close>. \<open>end_obj s xs\<close> is where that last pointer is.
\<close>

primrec chained :: "(obj \<rightharpoonup> nat option) \<Rightarrow> obj \<Rightarrow> nat list \<Rightarrow> nat option \<Rightarrow> bool" where
  "chained F s [] p \<longleftrightarrow> F s = Some p"
| "chained F s (x # xs) p \<longleftrightarrow> F s = Some (Some x) \<and> chained F (Elem x) xs p"

primrec end_obj :: "obj \<Rightarrow> nat list \<Rightarrow> obj" where
  "end_obj s [] = s"
| "end_obj s (x # xs) = end_obj (Elem x) xs"

text \<open>The back links: every element holds the address of the pointer that leads to it.\<close>

primrec backs :: "(obj \<rightharpoonup> obj) \<Rightarrow> obj \<Rightarrow> nat list \<Rightarrow> bool" where
  "backs B s [] \<longleftrightarrow> True"
| "backs B s (x # xs) \<longleftrightarrow> B (Elem x) = Some s \<and> backs B (Elem x) xs"

lemma end_obj_append [simp]: "end_obj s (xs @ ys) = end_obj (end_obj s xs) ys"
  by (induction xs arbitrary: s) simp_all

lemma end_obj_in: "end_obj s xs = s \<or> (\<exists>x \<in> set xs. end_obj s xs = Elem x)"
  by (induction xs arbitrary: s) auto

lemma end_obj_simps [simp]:
  "x \<notin> set xs \<Longrightarrow> end_obj (Head l) xs \<noteq> Elem x" "x \<notin> set xs \<Longrightarrow> Elem x \<noteq> end_obj (Head l) xs"
  "x \<notin> set xs \<Longrightarrow> y \<noteq> x \<Longrightarrow> end_obj (Elem y) xs \<noteq> Elem x" "k \<noteq> l \<Longrightarrow> end_obj (Head l) xs \<noteq> Head k"
  using end_obj_in [of "Head l" xs] end_obj_in [of "Elem y" xs] by auto

lemma end_obj_last: "xs \<noteq> [] \<Longrightarrow> end_obj s xs = Elem (last xs)"
  by (induction xs arbitrary: s) auto

lemma chained_split: "chained F s (xs @ x # ys) p \<longleftrightarrow> chained F s xs (Some x) \<and> chained F (Elem x) ys p"
  by (induction xs arbitrary: s) auto

lemma chained_end: "chained F s xs p \<Longrightarrow> F (end_obj s xs) = Some p"
  by (induction xs arbitrary: s) auto

lemma chained_first: "chained F s xs None \<Longrightarrow> F s = Some (head_ptr xs)"
  by (cases xs) simp_all

lemma chained_frame [simp]: "t \<noteq> s \<Longrightarrow> t \<notin> Elem ` set xs \<Longrightarrow> chained (F(t := v)) s xs p = chained F s xs p"
  by (induction xs arbitrary: s) auto

lemma chained_redirect:
  "chained F s xs p \<Longrightarrow> distinct xs \<Longrightarrow> s \<notin> Elem ` set xs \<Longrightarrow> chained (F(end_obj s xs \<mapsto> q)) s xs q"
proof (induction xs arbitrary: s)
  case (Cons x xs)
  have "end_obj (Elem x) xs \<noteq> s" using end_obj_in [of "Elem x" xs] Cons.prems(3) by auto
  with Cons show ?case by auto
qed simp

lemma backs_append: "backs B s (xs @ ys) \<longleftrightarrow> backs B s xs \<and> backs B (end_obj s xs) ys"
  by (induction xs arbitrary: s) auto

lemma backs_frame [simp]: "t \<notin> Elem ` set xs \<Longrightarrow> backs (B(t := v)) s xs = backs B s xs"
  by (induction xs arbitrary: s) auto

lemma chained_agree: "(\<forall>t \<in> insert s (Elem ` set xs). F t = G t) \<Longrightarrow> chained F s xs p = chained G s xs p"
  by (induction xs arbitrary: s) auto

lemma backs_agree: "(\<forall>t \<in> Elem ` set xs. B t = C t) \<Longrightarrow> backs B s xs = backs C s xs"
  by (induction xs arbitrary: s) auto

end
