(* ===== verification/Queue_Spec.thy ===== *)
theory Queue_Spec
  imports Queue_Heap
begin

text \<open>
  What the list macros of \<^verbatim>\<open>server/include/queue.h\<close> promise: operations on a family of lists, and the
  contract of an implementation of them on linked memory.
\<close>

section \<open>Operations on lists\<close>

fun insert_after :: "nat \<Rightarrow> nat \<Rightarrow> nat list \<Rightarrow> nat list" where
  "insert_after y x [] = []"
| "insert_after y x (z # zs) = (if z = y then z # x # zs else z # insert_after y x zs)"

fun insert_before :: "nat \<Rightarrow> nat \<Rightarrow> nat list \<Rightarrow> nat list" where
  "insert_before y x [] = []"
| "insert_before y x (z # zs) = (if z = y then x # z # zs else z # insert_before y x zs)"

fun remove_after :: "nat \<Rightarrow> nat list \<Rightarrow> nat list" where
  "remove_after y [] = []"
| "remove_after y (z # zs) = (if z = y then z # tl zs else z # remove_after y zs)"

lemma list_edit_split:
  assumes "y \<notin> set as"
  shows "insert_after y x (as @ y # bs) = as @ y # x # bs" and "insert_before y x (as @ y # bs) = as @ x # y # bs"
    and "remove_after y (as @ y # bs) = as @ y # tl bs" and "remove1 y (as @ y # bs) = as @ bs"
  using assms by (induction as) auto

text \<open>
  The operations on a family of lists, given by the number of the list (its head) and by elements. The
  head is part of every operation, also where the macro does not need it.
\<close>

datatype queue_op =
    Init nat
  | Insert_head nat nat
  | Insert_tail nat nat
  | Insert_after nat nat nat
  | Insert_before nat nat nat
  | Remove_head nat
  | Remove_after nat nat
  | Remove nat nat
  | Concat nat nat
  | Swap nat nat

fun op_heads :: "queue_op \<Rightarrow> nat list" where
  "op_heads (Init l) = [l]"
| "op_heads (Insert_head l x) = [l]"
| "op_heads (Insert_tail l x) = [l]"
| "op_heads (Insert_after l y x) = [l]"
| "op_heads (Insert_before l y x) = [l]"
| "op_heads (Remove_head l) = [l]"
| "op_heads (Remove_after l y) = [l]"
| "op_heads (Remove l y) = [l]"
| "op_heads (Concat k l) = [k, l]"
| "op_heads (Swap k l) = [k, l]"

fun op_new :: "queue_op \<Rightarrow> nat list" where
  "op_new (Insert_head l x) = [x]"
| "op_new (Insert_tail l x) = [x]"
| "op_new (Insert_after l y x) = [x]"
| "op_new (Insert_before l y x) = [x]"
| "op_new _ = []"

text \<open>The effect on the lists of the heads; \<open>None\<close> where the operation is not allowed.\<close>

fun op_effect :: "queue_op \<Rightarrow> nat list list \<Rightarrow> nat list list option" where
  "op_effect (Init l) [xs] = Some [[]]"
| "op_effect (Insert_head l x) [xs] = Some [x # xs]"
| "op_effect (Insert_tail l x) [xs] = Some [xs @ [x]]"
| "op_effect (Insert_after l y x) [xs] = (if y \<in> set xs then Some [insert_after y x xs] else None)"
| "op_effect (Insert_before l y x) [xs] = (if y \<in> set xs then Some [insert_before y x xs] else None)"
| "op_effect (Remove_head l) [xs] = (if xs \<noteq> [] then Some [tl xs] else None)"
| "op_effect (Remove_after l y) [xs] = (if y \<in> set (butlast xs) then Some [remove_after y xs] else None)"
| "op_effect (Remove l y) [xs] = (if y \<in> set xs then Some [remove1 y xs] else None)"
| "op_effect (Concat k l) [xs, ys] = Some [xs @ ys, []]"
| "op_effect (Swap k l) [xs, ys] = Some [ys, xs]"
| "op_effect _ _ = None"

lemma butlast_split:
  assumes "y \<in> set (butlast xs)"
  obtains as z bs where "xs = as @ y # z # bs"
proof -
  obtain as cs where "butlast xs = as @ y # cs" using split_list [OF assms] by blast
  moreover have "xs \<noteq> []" using assms by auto
  then have "xs = butlast xs @ [last xs]" by simp
  ultimately have "xs = as @ y # (cs @ [last xs])" by simp
  then show thesis by (cases "cs @ [last xs]") (auto intro: that)
qed

text \<open>The cases of an operation that is allowed.\<close>

lemma effect_cases [consumes 2]:
  assumes "op_effect op xss = Some yss" and "distinct (concat xss @ op_new op)"
  obtains
    (Init) l xs where "op = Init l" "xss = [xs]" "yss = [[]]"
  | (Insert_head) l x xs where "op = Insert_head l x" "xss = [xs]" "yss = [x # xs]"
  | (Insert_tail) l x xs where "op = Insert_tail l x" "xss = [xs]" "yss = [xs @ [x]]"
  | (Insert_after) l y x as bs where "op = Insert_after l y x" "xss = [as @ y # bs]" "yss = [as @ y # x # bs]"
  | (Insert_before) l y x as bs where "op = Insert_before l y x" "xss = [as @ y # bs]" "yss = [as @ x # y # bs]"
  | (Remove_head) l x xs where "op = Remove_head l" "xss = [x # xs]" "yss = [xs]"
  | (Remove_after) l y z as bs where "op = Remove_after l y" "xss = [as @ y # z # bs]" "yss = [as @ y # bs]"
  | (Remove) l y as bs where "op = Remove l y" "xss = [as @ y # bs]" "yss = [as @ bs]"
  | (Concat) k l xs ys where "op = Concat k l" "xss = [xs, ys]" "yss = [xs @ ys, []]"
  | (Swap) k l xs ys where "op = Swap k l" "xss = [xs, ys]" "yss = [ys, xs]"
  using assms
proof (induction op xss rule: op_effect.induct)
  case (4 l y x xs)
  then obtain as bs where "xs = as @ y # bs" by (auto split: if_splits dest: split_list)
  with 4 show ?case by (auto simp: list_edit_split)
next
  case (5 l y x xs)
  then obtain as bs where "xs = as @ y # bs" by (auto split: if_splits dest: split_list)
  with 5 show ?case by (auto simp: list_edit_split)
next
  case (6 l xs)
  then show ?case by (cases xs) auto
next
  case (7 l y xs)
  then obtain as z bs where "xs = as @ y # z # bs" by (auto split: if_splits elim: butlast_split)
  with 7 show ?case by (auto simp: list_edit_split butlast_append)
next
  case (8 l y xs)
  then obtain as bs where "xs = as @ y # bs" by (auto split: if_splits dest: split_list)
  with 8 show ?case by (auto simp: list_edit_split)
qed auto

section \<open>Families of lists\<close>

text \<open>The lists by number; no element is linked twice.\<close>

definition separate :: "nat list list \<Rightarrow> bool" where
  "separate Q \<longleftrightarrow> (\<forall>l < length Q. distinct (Q ! l)) \<and>
     (\<forall>k < length Q. \<forall>l < length Q. k \<noteq> l \<longrightarrow> set (Q ! k) \<inter> set (Q ! l) = {})"

fun update_all :: "nat list \<Rightarrow> 'a list \<Rightarrow> 'a list \<Rightarrow> 'a list" where
  "update_all (l # ls) (y # ys) Q = update_all ls ys (Q[l := y])"
| "update_all _ _ Q = Q"

text \<open>
  A step of the specification: the heads exist and are different, elements to be linked are not
  linked yet, and the operation is allowed.
\<close>

definition abs_step :: "queue_op \<Rightarrow> nat list list \<Rightarrow> nat list list option" where
  "abs_step op Q =
     (if distinct (op_heads op) \<and> list_all (\<lambda>l. l < length Q) (op_heads op) \<and>
         list_all (\<lambda>x. list_all (\<lambda>xs. x \<notin> set xs) Q) (op_new op)
      then map_option (\<lambda>yss. update_all (op_heads op) yss Q) (op_effect op (map (\<lambda>l. Q ! l) (op_heads op)))
      else None)"

fun abs_run :: "queue_op list \<Rightarrow> nat list list \<Rightarrow> nat list list option" where
  "abs_run [] Q = Some Q"
| "abs_run (op # ops) Q = (case abs_step op Q of None \<Rightarrow> None | Some Q' \<Rightarrow> abs_run ops Q')"

text \<open>A sequence of operations on memory.\<close>

fun run_ops :: "(queue_op \<Rightarrow> links \<Rightarrow> (fault + links) option) \<Rightarrow> queue_op list \<Rightarrow> links \<Rightarrow> (fault + links) option" where
  "run_ops exec [] h = returns h"
| "run_ops exec (op # ops) h = bindT (exec op h) (run_ops exec ops)"

text \<open>The structures that an operation may change, and that nothing else changes.\<close>

definition footprint :: "queue_op \<Rightarrow> nat list list \<Rightarrow> obj set" where
  "footprint op xss = Head ` set (op_heads op) \<union> Elem ` (set (concat xss) \<union> set (op_new op))"

lemma footprint_simps [simp]:
  "Head l \<in> footprint op xss \<longleftrightarrow> l \<in> set (op_heads op)"
  "Elem x \<in> footprint op xss \<longleftrightarrow> x \<in> set (concat xss) \<or> x \<in> set (op_new op)"
  "l \<in> set (op_heads op) \<Longrightarrow> (\<And>x. x \<in> set xs \<Longrightarrow> x \<in> set (concat xss)) \<Longrightarrow> end_obj (Head l) xs \<in> footprint op xss"
  using end_obj_in [of "Head l" xs] by (auto simp: footprint_def)

definition changed_in :: "obj set \<Rightarrow> (obj \<rightharpoonup> 'a) \<Rightarrow> (obj \<rightharpoonup> 'a) \<Rightarrow> bool" where
  "changed_in S F G \<longleftrightarrow> (\<forall>s. s \<notin> S \<longrightarrow> G s = F s) \<and> dom G = dom F"

definition same_outside :: "obj set \<Rightarrow> links \<Rightarrow> links \<Rightarrow> bool" where
  "same_outside S h h' \<longleftrightarrow> changed_in S (fwd h) (fwd h') \<and> changed_in S (bwd h) (bwd h')"

lemma changed_in_refl [simp]: "changed_in S F F"
  by (simp add: changed_in_def)

lemma changed_in_update [simp]: "changed_in S F G \<Longrightarrow> s \<in> S \<Longrightarrow> G s \<noteq> None \<Longrightarrow> changed_in S F (G(s \<mapsto> v))"
  by (auto simp: changed_in_def)

lemma effect_sets:
  assumes "op_effect op xss = Some yss" and "distinct (concat xss @ op_new op)"
  shows "distinct (concat yss)" and "set (concat yss) \<subseteq> set (concat xss) \<union> set (op_new op)" and "length yss = length xss"
  using assms(2) by (cases rule: effect_cases [OF assms]; auto)+

lemma length_update_all: "length (update_all ls yss Q) = length Q"
  by (induction ls yss Q rule: update_all.induct) simp_all

lemma update_all_nth:
  assumes "distinct ls" and "length ls = length yss" and "list_all (\<lambda>l. l < length Q) ls"
  shows "update_all ls yss Q ! l = (case map_of (zip ls yss) l of None \<Rightarrow> Q ! l | Some ys \<Rightarrow> ys)"
  using assms
proof (induction ls yss Q rule: update_all.induct)
  case (1 k ls y ys Q)
  have "map_of (zip ls ys) k = None" using 1 by simp
  then show ?case using 1 by (cases "l = k") (simp_all cong: option.case_cong)
qed simp_all

lemma map_of_zip_sets:
  assumes "map_of (zip ls yss) l = Some ys"
  shows "l \<in> set ls" and "set ys \<subseteq> set (concat yss)" and "distinct (concat yss) \<Longrightarrow> distinct ys"
    and "list_all2 P ls yss \<Longrightarrow> P l ys"
proof -
  have "(l, ys) \<in> set (zip ls yss)" using assms by (rule map_of_SomeD)
  then show "l \<in> set ls" and "set ys \<subseteq> set (concat yss)" and "distinct (concat yss) \<Longrightarrow> distinct ys"
      and "list_all2 P ls yss \<Longrightarrow> P l ys"
    by (auto simp: list_all2_iff distinct_concat_iff dest: set_zip_leftD set_zip_rightD)
qed

lemma map_of_zip_disjoint:
  assumes "distinct (concat yss)" and "map_of (zip ls yss) k = Some xs" and "map_of (zip ls yss) l = Some ys" and "k \<noteq> l"
  shows "set xs \<inter> set ys = {}"
  using assms
proof (induction yss arbitrary: ls)
  case (Cons zs yss)
  obtain m ms where ls: "ls = m # ms" using Cons.prems(2) by (cases ls) auto
  show ?case
    using Cons.prems Cons.IH [of ms] map_of_zip_sets(2) [of ms yss k xs] map_of_zip_sets(2) [of ms yss l ys]
    by (auto simp: ls split: if_splits)
qed simp

lemma separate_concat:
  assumes "separate Q" and "distinct ls" and "list_all (\<lambda>l. l < length Q) ls"
  shows "distinct (concat (map (\<lambda>l. Q ! l) ls))"
  using assms(2,3)
proof (induction ls)
  case (Cons l ls)
  have "set (Q ! l) \<inter> set (concat (map (\<lambda>l. Q ! l) ls)) = {}"
    using assms(1) Cons.prems by (auto simp: separate_def list_all_iff)
  moreover have "distinct (Q ! l)" using assms(1) Cons.prems by (simp add: separate_def)
  ultimately show ?case using Cons by auto
qed simp

text \<open>A step of the specification, taken apart; it keeps the family separate.\<close>

lemma abs_step_obtain:
  assumes "abs_step op Q = Some Q'" and "separate Q"
  obtains xss yss where "xss = map (\<lambda>l. Q ! l) (op_heads op)" and "op_effect op xss = Some yss" and "distinct (op_heads op)"
    and "list_all (\<lambda>l. l < length Q) (op_heads op)" and "distinct (concat xss @ op_new op)"
    and "\<And>k. k < length Q \<Longrightarrow> set (Q ! k) \<inter> set (op_new op) = {}"
    and "Q' = update_all (op_heads op) yss Q"
proof -
  let ?xss = "map (\<lambda>l. Q ! l) (op_heads op)"
  obtain yss where y: "op_effect op ?xss = Some yss" "distinct (op_heads op)" "list_all (\<lambda>l. l < length Q) (op_heads op)"
      "list_all (\<lambda>x. list_all (\<lambda>xs. x \<notin> set xs) Q) (op_new op)" "Q' = update_all (op_heads op) yss Q"
    using assms(1) by (auto simp: abs_step_def split: if_splits)
  have new: "set (Q ! k) \<inter> set (op_new op) = {}" if "k < length Q" for k
    using y(4) that by (auto simp: list_all_iff)
  have "distinct (op_new op)" by (cases op) simp_all
  moreover have "set (concat ?xss) \<inter> set (op_new op) = {}" using new y(3) by (auto simp: list_all_iff)
  ultimately have "distinct (concat ?xss @ op_new op)" using separate_concat [OF assms(2) y(2,3)] by auto
  with y new show thesis by (intro that [of ?xss yss]) auto
qed

lemma abs_step_separate:
  assumes "abs_step op Q = Some Q'" and "separate Q"
  shows "separate Q'"
proof -
  obtain xss yss where x: "xss = map (\<lambda>l. Q ! l) (op_heads op)" "op_effect op xss = Some yss" "distinct (op_heads op)"
    "list_all (\<lambda>l. l < length Q) (op_heads op)" "distinct (concat xss @ op_new op)"
    and new: "\<And>k. k < length Q \<Longrightarrow> set (Q ! k) \<inter> set (op_new op) = {}" and Q': "Q' = update_all (op_heads op) yss Q"
    using assms by (rule abs_step_obtain) blast
  note e = effect_sets [OF x(2,5)]
  have len: "length (op_heads op) = length yss" using e(3) x(1) by simp
  note nth = length_update_all [of "op_heads op" yss Q, folded Q'] update_all_nth [OF x(3) len x(4), folded Q']
  let ?m = "map_of (zip (op_heads op) yss)"
  have other: "set (Q ! k) \<inter> set (concat yss) = {}" if "k < length Q" "k \<notin> set (op_heads op)" for k
  proof -
    have "set (Q ! k) \<inter> set (Q ! l) = {}" if "l \<in> set (op_heads op)" for l
      using that \<open>k < length Q\<close> \<open>k \<notin> set (op_heads op)\<close> assms(2) x(4) unfolding separate_def list_all_iff by metis
    then have "set (Q ! k) \<inter> set (concat xss) = {}" unfolding x(1) by auto
    then show ?thesis using e(2) new [OF that(1)] by blast
  qed
  have none: "?m k = None \<longleftrightarrow> k \<notin> set (op_heads op)" for k using len by (simp add: map_of_zip_is_None)
  have "distinct (Q' ! k)" if "k < length Q" for k
    using that assms(2) e(1) map_of_zip_sets(3) by (auto simp: nth separate_def split: option.splits)
  moreover have "set (Q' ! k) \<inter> set (Q' ! l) = {}" if "k < length Q" "l < length Q" "k \<noteq> l" for k l
  proof (cases "?m k"; cases "?m l")
    fix xs ys assume "?m k = Some xs" "?m l = Some ys"
    then show ?thesis using map_of_zip_disjoint [OF e(1)] that(3) by (simp add: nth)
  next
    fix ys assume "?m k = None" "?m l = Some ys"
    then show ?thesis using other [of k] that(1) map_of_zip_sets(2) [of "op_heads op" yss l ys] none [of k] by (auto simp: nth)
  next
    fix xs assume "?m k = Some xs" "?m l = None"
    then show ?thesis using other [of l] that(2) map_of_zip_sets(2) [of "op_heads op" yss k xs] none [of l] by (auto simp: nth)
  next
    assume "?m k = None" "?m l = None"
    then show ?thesis using assms(2) that by (simp add: nth separate_def)
  qed
  ultimately show ?thesis by (simp add: separate_def nth(1))
qed

section \<open>The contract of an implementation\<close>

text \<open>Memory that holds a family of lists.\<close>

definition family :: "(links \<Rightarrow> nat \<Rightarrow> nat list \<Rightarrow> bool) \<Rightarrow> links \<Rightarrow> nat list list \<Rightarrow> bool" where
  "family rep h Q \<longleftrightarrow> separate Q \<and> (\<forall>l < length Q. rep h l (Q ! l))"

text \<open>
  \<open>rep h l xs\<close>: the list with head \<open>l\<close> holds the elements \<open>xs\<close>. \<open>usable\<close>: the element has the members the
  macros need. A supported operation that is allowed terminates without a fault, has the effect of
  the specification and changes nothing outside of its lists and elements.
\<close>

locale queue_macros =
  fixes rep :: "links \<Rightarrow> nat \<Rightarrow> nat list \<Rightarrow> bool"
    and usable :: "links \<Rightarrow> nat \<Rightarrow> bool"
    and supported :: "queue_op \<Rightarrow> bool"
    and exec :: "queue_op \<Rightarrow> links \<Rightarrow> (fault + links) option"
  assumes rep_agree: "rep h l xs \<Longrightarrow>
        (\<forall>s \<in> insert (Head l) (Elem ` set xs). fwd h' s = fwd h s \<and> bwd h' s = bwd h s) \<Longrightarrow> rep h' l xs"
    and usable_dom: "dom (fwd h') = dom (fwd h) \<Longrightarrow> dom (bwd h') = dom (bwd h) \<Longrightarrow> usable h' x = usable h x"
    and exec_law: "supported op \<Longrightarrow> list_all2 (rep h) (op_heads op) xss \<Longrightarrow> op_effect op xss = Some yss \<Longrightarrow>
        distinct (op_heads op) \<Longrightarrow> distinct (concat xss @ op_new op) \<Longrightarrow> list_all (usable h) (op_new op) \<Longrightarrow>
        \<exists>h'. exec op h = returns h' \<and> list_all2 (rep h') (op_heads op) yss \<and> same_outside (footprint op xss) h h'"
begin

lemma step_refines:
  assumes "family rep h Q" and "supported op" and "list_all (usable h) (op_new op)" and "abs_step op Q = Some Q'"
  shows "\<exists>h'. exec op h = returns h' \<and> family rep h' Q' \<and> usable h' = usable h"
proof -
  have sep: "separate Q" and rep: "\<And>l. l < length Q \<Longrightarrow> rep h l (Q ! l)" using assms(1) by (simp_all add: family_def)
  obtain xss yss where x: "xss = map (\<lambda>l. Q ! l) (op_heads op)" "op_effect op xss = Some yss" "distinct (op_heads op)"
    "list_all (\<lambda>l. l < length Q) (op_heads op)" "distinct (concat xss @ op_new op)"
    and new: "\<And>k. k < length Q \<Longrightarrow> set (Q ! k) \<inter> set (op_new op) = {}" and Q': "Q' = update_all (op_heads op) yss Q"
    using assms(4) sep by (rule abs_step_obtain) blast
  have "list_all2 (rep h) (op_heads op) xss"
    using rep x(4) unfolding x(1) by (auto simp: list_all2_conv_all_nth list_all_length)
  from exec_law [OF assms(2) this x(2,3,5) assms(3)] obtain h' where
    h': "exec op h = returns h'" "list_all2 (rep h') (op_heads op) yss" "same_outside (footprint op xss) h h'" by blast
  have len: "length (op_heads op) = length yss" using h'(2) by (rule list_all2_lengthD)
  note nth = length_update_all [of "op_heads op" yss Q, folded Q'] update_all_nth [OF x(3) len x(4), folded Q']
  have "rep h' l (Q' ! l)" if l: "l < length Q" for l
  proof (cases "map_of (zip (op_heads op) yss) l")
    case (Some ys)
    then show ?thesis using map_of_zip_sets(4) [OF Some h'(2)] by (simp add: nth)
  next
    case None
    then have out: "l \<notin> set (op_heads op)" using len by (simp add: map_of_zip_is_None)
    have "set (Q ! l) \<inter> set (Q ! k) = {}" if "k \<in> set (op_heads op)" for k
      using that out l sep x(4) unfolding separate_def list_all_iff by metis
    then have "set (Q ! l) \<inter> set (concat xss) = {}" unfolding x(1) by auto
    then have "s \<notin> footprint op xss" if "s \<in> insert (Head l) (Elem ` set (Q ! l))" for s
      using that out new [OF l] by (auto simp: footprint_def)
    then have "\<forall>s \<in> insert (Head l) (Elem ` set (Q ! l)). fwd h' s = fwd h s \<and> bwd h' s = bwd h s"
      using h'(3) by (simp add: same_outside_def changed_in_def)
    then show ?thesis using rep_agree [OF rep [OF l]] None by (simp add: nth)
  qed
  moreover have "usable h' = usable h"
    by (rule ext, rule usable_dom) (use h'(3) in \<open>simp_all add: same_outside_def changed_in_def\<close>)
  ultimately show ?thesis
    using h'(1) abs_step_separate [OF assms(4) sep] by (auto simp: family_def nth(1))
qed

text \<open>Every allowed sequence of operations refines the specification.\<close>

lemma run_refines:
  assumes "family rep h Q" and "list_all supported ops" and "list_all (\<lambda>op. list_all (usable h) (op_new op)) ops"
    and "abs_run ops Q = Some Q'"
  shows "\<exists>h'. run_ops exec ops h = returns h' \<and> family rep h' Q'"
  using assms
proof (induction ops arbitrary: h Q)
  case Nil
  then show ?case by simp
next
  case (Cons op ops)
  obtain Q1 where Q1: "abs_step op Q = Some Q1" "abs_run ops Q1 = Some Q'"
    using Cons.prems(4) by (auto split: option.splits)
  obtain h1 where "exec op h = returns h1" "family rep h1 Q1" "usable h1 = usable h"
    using step_refines [OF Cons.prems(1) _ _ Q1(1)] Cons.prems(2,3) by auto
  then show ?case using Cons.IH [of h1 Q1] Cons.prems(2,3) Q1(2) by simp
qed

end

end
