(* ===== verification/Stailq.thy ===== *)
theory Stailq
  imports Queue_Spec
begin

text \<open>
  The singly linked tail queue, \<^verbatim>\<open>STAILQ\<close> of \<^verbatim>\<open>server/include/queue.h\<close>. Its head also holds the address
  of the last next pointer; elements have no back link.
\<close>

section \<open>Macros\<close>

definition STAILQ_FIRST :: "nat \<Rightarrow> links \<Rightarrow> fault + nat option" where
  "STAILQ_FIRST head h = load_fwd (Head head) h"

definition STAILQ_EMPTY :: "nat \<Rightarrow> links \<Rightarrow> fault + bool" where
  "STAILQ_EMPTY head h = bindE (STAILQ_FIRST head h) (\<lambda>p. Inr (p = None))"

definition STAILQ_NEXT :: "nat option \<Rightarrow> links \<Rightarrow> fault + nat option" where
  "STAILQ_NEXT elm h = bindE (entry_of elm) (\<lambda>e. load_fwd e h)"

definition STAILQ_INIT :: "nat \<Rightarrow> links \<Rightarrow> fault + links" where
  "STAILQ_INIT head h = bindE (store_fwd (Head head) None h) (store_bwd (Head head) (Head head))"

text \<open>The initial members of a head that is declared with an initialiser.\<close>

definition STAILQ_HEAD_INITIALIZER :: "nat \<Rightarrow> nat option \<times> obj" where
  "STAILQ_HEAD_INITIALIZER head = (None, Head head)"

definition STAILQ_CONCAT :: "nat \<Rightarrow> nat \<Rightarrow> links \<Rightarrow> fault + links" where
  "STAILQ_CONCAT head1 head2 h =
     bindE (STAILQ_EMPTY head2 h) (\<lambda>empty.
       if \<not> empty then
         bindE (load_bwd (Head head1) h) (\<lambda>last1.
         bindE (STAILQ_FIRST head2 h) (\<lambda>first2.
         bindE (store_fwd last1 first2 h) (\<lambda>h1.
         bindE (load_bwd (Head head2) h1) (\<lambda>last2.
         bindE (store_bwd (Head head1) last2 h1) (STAILQ_INIT head2)))))
       else Inr h)"

definition STAILQ_INSERT_AFTER :: "nat \<Rightarrow> nat option \<Rightarrow> nat option \<Rightarrow> links \<Rightarrow> fault + links" where
  "STAILQ_INSERT_AFTER head tqelm elm h =
     bindE (entry_of elm) (\<lambda>e. bindE (entry_of tqelm) (\<lambda>t.
     bindE (STAILQ_NEXT tqelm h) (\<lambda>p.
     bindE (store_fwd e p h) (\<lambda>h1.
     bindE (if p = None then store_bwd (Head head) e h1 else Inr h1) (store_fwd t elm)))))"

definition STAILQ_INSERT_HEAD :: "nat \<Rightarrow> nat option \<Rightarrow> links \<Rightarrow> fault + links" where
  "STAILQ_INSERT_HEAD head elm h =
     bindE (entry_of elm) (\<lambda>e.
     bindE (STAILQ_FIRST head h) (\<lambda>p.
     bindE (store_fwd e p h) (\<lambda>h1.
     bindE (if p = None then store_bwd (Head head) e h1 else Inr h1) (store_fwd (Head head) elm))))"

definition STAILQ_INSERT_TAIL :: "nat \<Rightarrow> nat option \<Rightarrow> links \<Rightarrow> fault + links" where
  "STAILQ_INSERT_TAIL head elm h =
     bindE (entry_of elm) (\<lambda>e.
     bindE (store_fwd e None h) (\<lambda>h1.
     bindE (load_bwd (Head head) h1) (\<lambda>last.
     bindE (store_fwd last elm h1) (store_bwd (Head head) e))))"

definition STAILQ_LAST :: "nat \<Rightarrow> links \<Rightarrow> fault + nat option" where
  "STAILQ_LAST head h =
     bindE (STAILQ_EMPTY head h) (\<lambda>empty. if empty then Inr None else bindE (load_bwd (Head head) h) container_of)"

definition STAILQ_REMOVE_AFTER :: "nat \<Rightarrow> nat option \<Rightarrow> links \<Rightarrow> fault + links" where
  "STAILQ_REMOVE_AFTER head elm h =
     bindE (entry_of elm) (\<lambda>e.
     bindE (STAILQ_NEXT elm h) (\<lambda>q.
     bindE (STAILQ_NEXT q h) (\<lambda>p.
     bindE (store_fwd e p h) (\<lambda>h1. if p = None then store_bwd (Head head) e h1 else Inr h1))))"

definition STAILQ_REMOVE_HEAD :: "nat \<Rightarrow> links \<Rightarrow> fault + links" where
  "STAILQ_REMOVE_HEAD head h =
     bindE (STAILQ_FIRST head h) (\<lambda>q.
     bindE (STAILQ_NEXT q h) (\<lambda>p.
     bindE (store_fwd (Head head) p h) (\<lambda>h1. if p = None then store_bwd (Head head) (Head head) h1 else Inr h1)))"

definition STAILQ_REMOVE :: "nat \<Rightarrow> nat option \<Rightarrow> links \<Rightarrow> (fault + links) option" where
  "STAILQ_REMOVE head elm h =
     bindT (Some (STAILQ_FIRST head h)) (\<lambda>p.
       if p = elm then Some (STAILQ_REMOVE_HEAD head h)
       else bindT (find_pred STAILQ_NEXT p elm h) (\<lambda>curelm. Some (STAILQ_REMOVE_AFTER head curelm h)))"

definition STAILQ_SWAP :: "nat \<Rightarrow> nat \<Rightarrow> links \<Rightarrow> fault + links" where
  "STAILQ_SWAP head1 head2 h =
     bindE (STAILQ_FIRST head1 h) (\<lambda>swap_first.
     bindE (load_bwd (Head head1) h) (\<lambda>swap_last.
     bindE (STAILQ_FIRST head2 h) (\<lambda>first2.
     bindE (store_fwd (Head head1) first2 h) (\<lambda>h1.
     bindE (load_bwd (Head head2) h1) (\<lambda>last2.
     bindE (store_bwd (Head head1) last2 h1) (\<lambda>h2.
     bindE (store_fwd (Head head2) swap_first h2) (\<lambda>h3.
     bindE (store_bwd (Head head2) swap_last h3) (\<lambda>h4.
     bindE (STAILQ_EMPTY head1 h4) (\<lambda>empty1.
     bindE (if empty1 then store_bwd (Head head1) (Head head1) h4 else Inr h4) (\<lambda>h5.
     bindE (STAILQ_EMPTY head2 h5) (\<lambda>empty2.
       if empty2 then store_bwd (Head head2) (Head head2) h5 else Inr h5)))))))))))"

text \<open>The loops.\<close>

definition STAILQ_FOREACH where
  "STAILQ_FOREACH head body st = bindT (Some (STAILQ_FIRST head (snd st))) (\<lambda>var. foreach STAILQ_NEXT body var st)"

definition STAILQ_FOREACH_FROM where
  "STAILQ_FOREACH_FROM head body var st =
     bindT (if var \<noteq> None then returns var else Some (STAILQ_FIRST head (snd st))) (\<lambda>var. foreach STAILQ_NEXT body var st)"

definition STAILQ_FOREACH_SAFE where
  "STAILQ_FOREACH_SAFE head body st = bindT (Some (STAILQ_FIRST head (snd st))) (\<lambda>var. foreach_safe STAILQ_NEXT body var st)"

definition STAILQ_FOREACH_FROM_SAFE where
  "STAILQ_FOREACH_FROM_SAFE head body var st =
     bindT (if var \<noteq> None then returns var else Some (STAILQ_FIRST head (snd st))) (\<lambda>var. foreach_safe STAILQ_NEXT body var st)"

section \<open>Representation\<close>

definition is_stailq :: "links \<Rightarrow> nat \<Rightarrow> nat list \<Rightarrow> bool" where
  "is_stailq h l xs \<longleftrightarrow> chained (fwd h) (Head l) xs None \<and> bwd h (Head l) = Some (end_obj (Head l) xs) \<and> distinct xs"

definition stailq_usable :: "links \<Rightarrow> nat \<Rightarrow> bool" where
  "stailq_usable h x \<longleftrightarrow> fwd h (Elem x) \<noteq> None"

text \<open>The macro of an operation; there is none for insertion before an element.\<close>

fun stailq_exec :: "queue_op \<Rightarrow> links \<Rightarrow> (fault + links) option" where
  "stailq_exec (Init l) h = Some (STAILQ_INIT l h)"
| "stailq_exec (Insert_head l x) h = Some (STAILQ_INSERT_HEAD l (Some x) h)"
| "stailq_exec (Insert_tail l x) h = Some (STAILQ_INSERT_TAIL l (Some x) h)"
| "stailq_exec (Insert_after l y x) h = Some (STAILQ_INSERT_AFTER l (Some y) (Some x) h)"
| "stailq_exec (Remove_head l) h = Some (STAILQ_REMOVE_HEAD l h)"
| "stailq_exec (Remove_after l y) h = Some (STAILQ_REMOVE_AFTER l (Some y) h)"
| "stailq_exec (Remove l y) h = STAILQ_REMOVE l (Some y) h"
| "stailq_exec (Concat k l) h = Some (STAILQ_CONCAT k l h)"
| "stailq_exec (Swap k l) h = Some (STAILQ_SWAP k l h)"
| "stailq_exec (Insert_before l y x) h = None"

fun stailq_supported :: "queue_op \<Rightarrow> bool" where
  "stailq_supported (Insert_before l y x) = False"
| "stailq_supported _ = True"

lemma stailq_first: "is_stailq h l xs \<Longrightarrow> STAILQ_FIRST l h = Inr (head_ptr xs)"
  using chained_first by (auto simp: is_stailq_def STAILQ_FIRST_def)

lemma stailq_next: "is_stailq h l (xs @ x # ys) \<Longrightarrow> STAILQ_NEXT (Some x) h = Inr (head_ptr ys)"
  using chained_first by (fastforce simp: is_stailq_def STAILQ_NEXT_def chained_split)

interpretation stailq_walk: traversal "\<lambda>h. is_stailq h l" "STAILQ_FIRST l" STAILQ_NEXT for l
  by unfold_locales (rule stailq_first stailq_next, assumption)+

text \<open>One law per operation: the result, its representation and its footprint.\<close>

lemma stailq_insert_head:
  assumes "is_stailq h l xs" and "fwd h (Elem x) \<noteq> None" and "x \<notin> set xs"
  shows "\<exists>h'. STAILQ_INSERT_HEAD l (Some x) h = Inr h' \<and> is_stailq h' l (x # xs) \<and>
    same_outside (footprint (Insert_head l x) [xs]) h h'"
  using assms by (cases xs) (auto simp: is_stailq_def STAILQ_INSERT_HEAD_def STAILQ_FIRST_def same_outside_def)

lemma stailq_insert_tail:
  assumes "is_stailq h l xs" and "fwd h (Elem x) \<noteq> None" and "x \<notin> set xs"
  shows "\<exists>h'. STAILQ_INSERT_TAIL l (Some x) h = Inr h' \<and> is_stailq h' l (xs @ [x]) \<and>
    same_outside (footprint (Insert_tail l x) [xs]) h h'"
proof -
  let ?e = "end_obj (Head l) xs"
  have q: "chained (fwd h) (Head l) xs None" "bwd h (Head l) = Some ?e" "distinct xs" using assms(1) by (auto simp: is_stailq_def)
  note e = chained_end [OF q(1)]
  have "chained ((fwd h)(Elem x \<mapsto> None)) (Head l) xs None" using q(1) assms(3) by simp
  from chained_redirect [OF this q(3), of "Some x"]
  have "chained ((fwd h)(Elem x \<mapsto> None, ?e \<mapsto> Some x)) (Head l) xs (Some x)" by simp
  then show ?thesis
    using assms q e
    by (auto simp: is_stailq_def STAILQ_INSERT_TAIL_def chained_split same_outside_def)
qed

lemma stailq_insert_after:
  assumes "is_stailq h l (as @ y # bs)" and "fwd h (Elem x) \<noteq> None" and "x \<notin> set (as @ y # bs)"
  shows "\<exists>h'. STAILQ_INSERT_AFTER l (Some y) (Some x) h = Inr h' \<and> is_stailq h' l (as @ y # x # bs) \<and>
    same_outside (footprint (Insert_after l y x) [as @ y # bs]) h h'"
  using assms
  by (cases bs) (auto simp: is_stailq_def STAILQ_INSERT_AFTER_def STAILQ_NEXT_def chained_split same_outside_def)

lemma stailq_remove_head:
  assumes "is_stailq h l (x # xs)"
  shows "\<exists>h'. STAILQ_REMOVE_HEAD l h = Inr h' \<and> is_stailq h' l xs \<and> same_outside (footprint (Remove_head l) [x # xs]) h h'"
  using assms
  by (cases xs) (auto simp: is_stailq_def STAILQ_REMOVE_HEAD_def STAILQ_FIRST_def STAILQ_NEXT_def same_outside_def)

lemma stailq_remove_after:
  assumes "is_stailq h l (as @ y # z # bs)"
  shows "\<exists>h'. STAILQ_REMOVE_AFTER l (Some y) h = Inr h' \<and> is_stailq h' l (as @ y # bs) \<and>
    same_outside (footprint (Remove_after l y) [as @ y # z # bs]) h h'"
  using assms
  by (cases bs) (auto simp: is_stailq_def STAILQ_REMOVE_AFTER_def STAILQ_NEXT_def chained_split same_outside_def)

lemma stailq_remove:
  assumes "is_stailq h l (as @ y # bs)"
  shows "\<exists>h'. STAILQ_REMOVE l (Some y) h = returns h' \<and> is_stailq h' l (as @ bs) \<and>
    same_outside (footprint (Remove l y) [as @ y # bs]) h h'"
proof (cases as rule: rev_cases)
  case Nil
  with assms stailq_first [OF assms] stailq_remove_head [of h l y bs] show ?thesis
    by (auto simp: STAILQ_REMOVE_def footprint_def)
next
  case (snoc ws z)
  have d: "distinct (as @ y # bs)" using assms by (simp add: is_stailq_def)
  have "STAILQ_FIRST l h = Inr (head_ptr (ws @ [z]))" "head_ptr (ws @ [z]) \<noteq> Some y"
    using stailq_first [OF assms] d snoc by (cases ws; auto)+
  moreover have "find_pred STAILQ_NEXT (head_ptr (ws @ [z])) (Some y) h = returns (Some z)"
    using stailq_walk.find_pred_listed [where s = h and pre = "[]" and ws = ws and y = z and x = y and ys = bs and l = l] assms d snoc by auto
  ultimately have "STAILQ_REMOVE l (Some y) h = Some (STAILQ_REMOVE_AFTER l (Some z) h)"
    by (simp add: STAILQ_REMOVE_def)
  then show ?thesis
    using stailq_remove_after [of h l ws z y bs] assms snoc by (auto simp: footprint_def)
qed

lemma stailq_fresh:
  shows "\<lbrakk>fwd h (Head l) \<noteq> None; bwd h (Head l) \<noteq> None\<rbrakk> \<Longrightarrow> \<exists>h'. STAILQ_INIT l h = Inr h' \<and> is_stailq h' l []"
    and "\<lbrakk>fwd h (Head l) = Some p; bwd h (Head l) = Some q; STAILQ_HEAD_INITIALIZER l = (p, q)\<rbrakk> \<Longrightarrow> is_stailq h l []"
  by (auto simp: is_stailq_def STAILQ_INIT_def STAILQ_HEAD_INITIALIZER_def)

lemma stailq_init:
  assumes "is_stailq h l xs"
  shows "\<exists>h'. STAILQ_INIT l h = Inr h' \<and> is_stailq h' l [] \<and> same_outside (footprint (Init l) [xs]) h h'"
  using assms chained_first [of "fwd h" "Head l" xs]
  by (auto simp: is_stailq_def STAILQ_INIT_def same_outside_def)

lemma stailq_concat:
  assumes "is_stailq h k xs" and "is_stailq h l ys" and "k \<noteq> l" and "set xs \<inter> set ys = {}"
  shows "\<exists>h'. STAILQ_CONCAT k l h = Inr h' \<and> is_stailq h' k (xs @ ys) \<and> is_stailq h' l [] \<and>
    same_outside (footprint (Concat k l) [xs, ys]) h h'"
proof (cases ys)
  case Nil
  with assms show ?thesis
    by (auto simp: is_stailq_def STAILQ_CONCAT_def STAILQ_EMPTY_def STAILQ_FIRST_def same_outside_def)
next
  case (Cons y zs)
  let ?e = "end_obj (Head k) xs"
  have q: "chained (fwd h) (Head k) xs None" "bwd h (Head k) = Some ?e" "distinct xs" using assms(1) by (auto simp: is_stailq_def)
  have "chained ((fwd h)(?e \<mapsto> Some y)) (Head k) xs (Some y)" using chained_redirect [OF q(1,3)] by simp
  moreover have "?e \<noteq> Head l" "?e \<notin> Elem ` set ys" using end_obj_in [of "Head k" xs] assms(3,4) by auto
  ultimately show ?thesis
    using assms q Cons chained_end [OF q(1)]
    by (auto simp: is_stailq_def STAILQ_CONCAT_def STAILQ_EMPTY_def STAILQ_FIRST_def STAILQ_INIT_def chained_split
        same_outside_def)
qed

lemma stailq_swap:
  assumes "is_stailq h k xs" and "is_stailq h l ys" and "k \<noteq> l"
  shows "\<exists>h'. STAILQ_SWAP k l h = Inr h' \<and> is_stailq h' k ys \<and> is_stailq h' l xs \<and>
    same_outside (footprint (Swap k l) [xs, ys]) h h'"
  using assms
  by (cases xs; cases ys) (auto simp: is_stailq_def STAILQ_SWAP_def STAILQ_EMPTY_def STAILQ_FIRST_def same_outside_def)

section \<open>Refinement\<close>

interpretation stailq: queue_macros is_stailq stailq_usable stailq_supported stailq_exec
proof
  show "is_stailq h' l xs"
    if "is_stailq h l xs" "\<forall>s \<in> insert (Head l) (Elem ` set xs). fwd h' s = fwd h s \<and> bwd h' s = bwd h s" for h h' l xs
    using that chained_agree [of "Head l" xs "fwd h'" "fwd h" None] by (simp add: is_stailq_def)
  show "stailq_usable h' x = stailq_usable h x" if "dom (fwd h') = dom (fwd h)" for h h' x
    using that by (auto simp: stailq_usable_def dom_def set_eq_iff)
  show "\<exists>h'. stailq_exec op h = returns h' \<and> list_all2 (is_stailq h') (op_heads op) yss \<and> same_outside (footprint op xss) h h'"
    if "stailq_supported op" and rep: "list_all2 (is_stailq h) (op_heads op) xss" and eff: "op_effect op xss = Some yss"
      and "distinct (op_heads op)" and new: "distinct (concat xss @ op_new op)" and "list_all (stailq_usable h) (op_new op)"
    for op h xss yss
    using eff new
  proof (cases rule: effect_cases)
    case Init then show ?thesis using rep stailq_init by simp
  next
    case Insert_head then show ?thesis using that stailq_insert_head by (simp add: stailq_usable_def)
  next
    case Insert_tail then show ?thesis using that stailq_insert_tail by (simp add: stailq_usable_def)
  next
    case Insert_after then show ?thesis using that stailq_insert_after by (simp add: stailq_usable_def)
  next
    case Insert_before then show ?thesis using that(1) by simp
  next
    case Remove_head then show ?thesis using rep stailq_remove_head by simp
  next
    case Remove_after then show ?thesis using rep stailq_remove_after by simp
  next
    case Remove then show ?thesis using rep stailq_remove by simp
  next
    case Concat then show ?thesis using that stailq_concat by fastforce
  next
    case Swap then show ?thesis using that stailq_swap by fastforce
  qed
qed

lemma stailq_empty: "is_stailq h l xs \<Longrightarrow> STAILQ_EMPTY l h = Inr (xs = [])"
  using stailq_first by (simp add: STAILQ_EMPTY_def)

text \<open>The last element, and the loops on a body that leaves the queue alone.\<close>

lemma stailq_last: "is_stailq h l xs \<Longrightarrow> STAILQ_LAST l h = Inr (if xs = [] then None else Some (last xs))"
  using chained_first [of "fwd h" "Head l" xs] end_obj_last [of xs "Head l"]
  by (cases "xs = []") (auto simp: is_stailq_def STAILQ_LAST_def STAILQ_EMPTY_def STAILQ_FIRST_def)

lemma stailq_loops:
  assumes "\<And>x c. x \<in> set xs \<Longrightarrow> body (Some x) (c, h) = returns (f x c, h)" and "is_stailq h l xs"
  shows "STAILQ_FOREACH l body (c, h) = returns (fold f xs c, h)"
    and "STAILQ_FOREACH_SAFE l body (c, h) = returns (fold f xs c, h)"
    and "STAILQ_FOREACH_FROM l body None (c, h) = returns (fold f xs c, h)"
    and "STAILQ_FOREACH_FROM_SAFE l body None (c, h) = returns (fold f xs c, h)"
  using stailq_walk.foreach_fold [where s = h and pre = "[]" and xs = xs and f = f and c = c and l = l and body = body]
    stailq_first [OF assms(2)] assms
  by (simp_all add: STAILQ_FOREACH_def STAILQ_FOREACH_SAFE_def STAILQ_FOREACH_FROM_def STAILQ_FOREACH_FROM_SAFE_def)

section \<open>Properties\<close>

text \<open>
  Property C22. The STAILQ macros implement lists. Let memory hold a family of queues with no element in two
  places, and let every element to be linked have an entry field. Then every sequence of operations
  (initialise, insert at the head, at the tail or after an element, remove the head, an element or
  the one after it, concatenate, swap) that the list specification allows terminates without a
  fault, and memory then holds the family that the specification computes; in it, the
  macros for the first and the last element and for emptiness give those of the lists.\<close>

theorem stailq_ops_refine:
  assumes "family is_stailq h Q" and "list_all stailq_supported ops"
    and "list_all (\<lambda>op. list_all (stailq_usable h) (op_new op)) ops" and "abs_run ops Q = Some Q'"
  shows "\<exists>h'. run_ops stailq_exec ops h = returns h' \<and> family is_stailq h' Q' \<and>
    (\<forall>l < length Q'. STAILQ_FIRST l h' = Inr (head_ptr (Q' ! l)) \<and> STAILQ_EMPTY l h' = Inr (Q' ! l = []) \<and>
       STAILQ_LAST l h' = Inr (if Q' ! l = [] then None else Some (last (Q' ! l))))"
  using stailq.run_refines [OF assms] stailq_first stailq_last stailq_empty
  by (fastforce simp: family_def)

definition example_stailq :: links where
  "example_stailq = \<lparr>fwd = [Head 0 \<mapsto> None, Head 1 \<mapsto> None, Elem 5 \<mapsto> None, Elem 6 \<mapsto> None, Elem 7 \<mapsto> None],
     bwd = [Head 0 \<mapsto> Head 0, Head 1 \<mapsto> Head 1]\<rparr>"

theorem stailq_ops_refine_witness:
  "\<exists>h'. run_ops stailq_exec [Insert_tail 0 5, Insert_head 1 6, Insert_after 0 5 7, Concat 1 0, Remove 1 7] example_stailq = returns h' \<and>
     family is_stailq h' [[], [6, 5]]"
proof -
  have "family is_stailq example_stailq [[], []]"
    by (auto simp: family_def separate_def is_stailq_def example_stailq_def less_Suc_eq)
  from stailq_ops_refine [OF this, of "[Insert_tail 0 5, Insert_head 1 6, Insert_after 0 5 7, Concat 1 0, Remove 1 7]" "[[], [6, 5]]"]
  show ?thesis by (auto simp: abs_step_def stailq_usable_def example_stailq_def)
qed

end
