(* ===== verification/List_Macros.thy ===== *)
theory List_Macros
  imports Queue_Spec
begin

text \<open>
  The doubly linked list, \<^verbatim>\<open>LIST\<close> of \<^verbatim>\<open>server/include/queue.h\<close>. Every element holds the address of the
  pointer that leads to it; the head is a single pointer.
\<close>

section \<open>Macros\<close>

definition LIST_FIRST :: "nat \<Rightarrow> links \<Rightarrow> fault + nat option" where
  "LIST_FIRST head h = load_fwd (Head head) h"

definition LIST_EMPTY :: "nat \<Rightarrow> links \<Rightarrow> fault + bool" where
  "LIST_EMPTY head h = bindE (LIST_FIRST head h) (\<lambda>p. Inr (p = None))"

definition LIST_NEXT :: "nat option \<Rightarrow> links \<Rightarrow> fault + nat option" where
  "LIST_NEXT elm h = bindE (entry_of elm) (\<lambda>e. load_fwd e h)"

definition LIST_INIT :: "nat \<Rightarrow> links \<Rightarrow> fault + links" where
  "LIST_INIT head h = store_fwd (Head head) None h"

text \<open>The initial member of a head that is declared with an initialiser.\<close>

definition LIST_HEAD_INITIALIZER :: "nat option" where
  "LIST_HEAD_INITIALIZER = None"

text \<open>
  The consistency checks, which a kernel built with \<^verbatim>\<open>INVARIANTS\<close> runs in the macros; other builds
  define them as empty. The result is whether the check panics.
\<close>

definition QMD_LIST_CHECK_HEAD :: "nat \<Rightarrow> links \<Rightarrow> fault + bool" where
  "QMD_LIST_CHECK_HEAD head h =
     bindE (LIST_FIRST head h) (\<lambda>p.
       if p \<noteq> None then bindE (entry_of p) (\<lambda>e. bindE (load_bwd e h) (\<lambda>prev. Inr (prev \<noteq> Head head)))
       else Inr False)"

definition QMD_LIST_CHECK_NEXT :: "nat option \<Rightarrow> links \<Rightarrow> fault + bool" where
  "QMD_LIST_CHECK_NEXT elm h =
     bindE (entry_of elm) (\<lambda>e. bindE (LIST_NEXT elm h) (\<lambda>p.
       if p \<noteq> None then bindE (entry_of p) (\<lambda>n. bindE (load_bwd n h) (\<lambda>prev. Inr (prev \<noteq> e)))
       else Inr False))"

definition QMD_LIST_CHECK_PREV :: "nat option \<Rightarrow> links \<Rightarrow> fault + bool" where
  "QMD_LIST_CHECK_PREV elm h =
     bindE (entry_of elm) (\<lambda>e. bindE (load_bwd e h) (\<lambda>prev. bindE (load_fwd prev h) (\<lambda>p. Inr (p \<noteq> elm))))"

text \<open>The assignment \<^verbatim>\<open>p->field.le_prev = slot\<close>.\<close>

definition set_prev :: "nat option \<Rightarrow> obj \<Rightarrow> links \<Rightarrow> fault + links" where
  "set_prev p slot h = bindE (entry_of p) (\<lambda>e. store_bwd e slot h)"

definition LIST_CONCAT :: "nat \<Rightarrow> nat \<Rightarrow> links \<Rightarrow> (fault + links) option" where
  "LIST_CONCAT head1 head2 h =
     bindT (Some (LIST_FIRST head1 h)) (\<lambda>curelm.
     bindT (Some (LIST_FIRST head2 h)) (\<lambda>first2.
       if curelm = None then
         bindT (Some (store_fwd (Head head1) first2 h)) (\<lambda>h1.
           if first2 \<noteq> None then
             bindT (Some (set_prev first2 (Head head1) h1)) (\<lambda>h2. Some (LIST_INIT head2 h2))
           else returns h1)
       else if first2 \<noteq> None then
         bindT (find_end LIST_NEXT curelm h) (\<lambda>last1.
         bindT (Some (entry_of last1)) (\<lambda>e.
         bindT (Some (store_fwd e first2 h)) (\<lambda>h1.
         bindT (Some (set_prev first2 e h1)) (\<lambda>h2. Some (LIST_INIT head2 h2)))))
       else returns h))"

definition LIST_INSERT_AFTER :: "nat option \<Rightarrow> nat option \<Rightarrow> links \<Rightarrow> fault + links" where
  "LIST_INSERT_AFTER listelm elm h =
     bindE (entry_of elm) (\<lambda>e. bindE (entry_of listelm) (\<lambda>t.
     bindE (LIST_NEXT listelm h) (\<lambda>p.
     bindE (store_fwd e p h) (\<lambda>h1.
     bindE (if p \<noteq> None then bindE (LIST_NEXT listelm h1) (\<lambda>q. set_prev q e h1) else Inr h1) (\<lambda>h2.
     bindE (store_fwd t elm h2) (store_bwd e t))))))"

definition LIST_INSERT_BEFORE :: "nat option \<Rightarrow> nat option \<Rightarrow> links \<Rightarrow> fault + links" where
  "LIST_INSERT_BEFORE listelm elm h =
     bindE (entry_of elm) (\<lambda>e. bindE (entry_of listelm) (\<lambda>t.
     bindE (load_bwd t h) (\<lambda>prev.
     bindE (store_bwd e prev h) (\<lambda>h1.
     bindE (store_fwd e listelm h1) (\<lambda>h2.
     bindE (load_bwd t h2) (\<lambda>prev2.
     bindE (store_fwd prev2 elm h2) (store_bwd t e)))))))"

definition LIST_INSERT_HEAD :: "nat \<Rightarrow> nat option \<Rightarrow> links \<Rightarrow> fault + links" where
  "LIST_INSERT_HEAD head elm h =
     bindE (entry_of elm) (\<lambda>e.
     bindE (LIST_FIRST head h) (\<lambda>p.
     bindE (store_fwd e p h) (\<lambda>h1.
     bindE (if p \<noteq> None then bindE (LIST_FIRST head h1) (\<lambda>q. set_prev q e h1) else Inr h1) (\<lambda>h2.
     bindE (store_fwd (Head head) elm h2) (store_bwd e (Head head))))))"

definition LIST_PREV :: "nat option \<Rightarrow> nat \<Rightarrow> links \<Rightarrow> fault + nat option" where
  "LIST_PREV elm head h =
     bindE (entry_of elm) (\<lambda>e.
     bindE (load_bwd e h) (\<lambda>prev. if prev = Head head then Inr None else container_of prev))"

definition LIST_REMOVE :: "nat option \<Rightarrow> links \<Rightarrow> fault + links" where
  "LIST_REMOVE elm h =
     bindE (entry_of elm) (\<lambda>e.
     bindE (LIST_NEXT elm h) (\<lambda>p.
     bindE (if p \<noteq> None then bindE (load_bwd e h) (\<lambda>prev. set_prev p prev h) else Inr h) (\<lambda>h1.
     bindE (load_bwd e h1) (\<lambda>prev.
     bindE (LIST_NEXT elm h1) (\<lambda>q. store_fwd prev q h1)))))"

definition LIST_SWAP :: "nat \<Rightarrow> nat \<Rightarrow> links \<Rightarrow> fault + links" where
  "LIST_SWAP head1 head2 h =
     bindE (LIST_FIRST head1 h) (\<lambda>swap_tmp.
     bindE (LIST_FIRST head2 h) (\<lambda>first2.
     bindE (store_fwd (Head head1) first2 h) (\<lambda>h1.
     bindE (store_fwd (Head head2) swap_tmp h1) (\<lambda>h2.
     bindE (LIST_FIRST head1 h2) (\<lambda>tmp1.
     bindE (if tmp1 \<noteq> None then set_prev tmp1 (Head head1) h2 else Inr h2) (\<lambda>h3.
     bindE (LIST_FIRST head2 h3) (\<lambda>tmp2.
       if tmp2 \<noteq> None then set_prev tmp2 (Head head2) h3 else Inr h3)))))))"

text \<open>The loops.\<close>

definition LIST_FOREACH where
  "LIST_FOREACH head body st = bindT (Some (LIST_FIRST head (snd st))) (\<lambda>var. foreach LIST_NEXT body var st)"

definition LIST_FOREACH_FROM where
  "LIST_FOREACH_FROM head body var st =
     bindT (if var \<noteq> None then returns var else Some (LIST_FIRST head (snd st))) (\<lambda>var. foreach LIST_NEXT body var st)"

definition LIST_FOREACH_SAFE where
  "LIST_FOREACH_SAFE head body st = bindT (Some (LIST_FIRST head (snd st))) (\<lambda>var. foreach_safe LIST_NEXT body var st)"

definition LIST_FOREACH_FROM_SAFE where
  "LIST_FOREACH_FROM_SAFE head body var st =
     bindT (if var \<noteq> None then returns var else Some (LIST_FIRST head (snd st))) (\<lambda>var. foreach_safe LIST_NEXT body var st)"

section \<open>Representation\<close>

definition is_dlist :: "links \<Rightarrow> nat \<Rightarrow> nat list \<Rightarrow> bool" where
  "is_dlist h l xs \<longleftrightarrow> chained (fwd h) (Head l) xs None \<and> backs (bwd h) (Head l) xs \<and> distinct xs"

definition dlist_usable :: "links \<Rightarrow> nat \<Rightarrow> bool" where
  "dlist_usable h x \<longleftrightarrow> fwd h (Elem x) \<noteq> None \<and> bwd h (Elem x) \<noteq> None"

text \<open>The macro of an operation; there are none for the tail and for removal relative to a position.\<close>

fun dlist_exec :: "queue_op \<Rightarrow> links \<Rightarrow> (fault + links) option" where
  "dlist_exec (Init l) h = Some (LIST_INIT l h)"
| "dlist_exec (Insert_head l x) h = Some (LIST_INSERT_HEAD l (Some x) h)"
| "dlist_exec (Insert_after l y x) h = Some (LIST_INSERT_AFTER (Some y) (Some x) h)"
| "dlist_exec (Insert_before l y x) h = Some (LIST_INSERT_BEFORE (Some y) (Some x) h)"
| "dlist_exec (Remove l y) h = Some (LIST_REMOVE (Some y) h)"
| "dlist_exec (Concat k l) h = LIST_CONCAT k l h"
| "dlist_exec (Swap k l) h = Some (LIST_SWAP k l h)"
| "dlist_exec _ h = None"

fun dlist_supported :: "queue_op \<Rightarrow> bool" where
  "dlist_supported (Insert_tail l x) = False"
| "dlist_supported (Remove_head l) = False"
| "dlist_supported (Remove_after l y) = False"
| "dlist_supported _ = True"

lemmas dlist_defs = is_dlist_def LIST_FIRST_def LIST_NEXT_def LIST_INIT_def set_prev_def chained_split backs_append same_outside_def

lemma dlist_first: "is_dlist h l xs \<Longrightarrow> LIST_FIRST l h = Inr (head_ptr xs)"
  using chained_first by (auto simp: is_dlist_def LIST_FIRST_def)

lemma dlist_next: "is_dlist h l (xs @ x # ys) \<Longrightarrow> LIST_NEXT (Some x) h = Inr (head_ptr ys)"
  using chained_first by (fastforce simp: is_dlist_def LIST_NEXT_def chained_split)

interpretation dlist_walk: traversal "\<lambda>h. is_dlist h l" "LIST_FIRST l" LIST_NEXT for l
  by unfold_locales (rule dlist_first dlist_next, assumption)+

lemma dlist_fresh:
  shows "fwd h (Head l) \<noteq> None \<Longrightarrow> \<exists>h'. LIST_INIT l h = Inr h' \<and> is_dlist h' l []"
    and "fwd h (Head l) = Some LIST_HEAD_INITIALIZER \<Longrightarrow> is_dlist h l []"
  by (auto simp: is_dlist_def LIST_INIT_def LIST_HEAD_INITIALIZER_def)

lemma dlist_init:
  assumes "is_dlist h l xs"
  shows "\<exists>h'. LIST_INIT l h = Inr h' \<and> is_dlist h' l [] \<and> same_outside (footprint (Init l) [xs]) h h'"
  using assms chained_first [of "fwd h" "Head l" xs] by (auto simp: dlist_defs)

lemma dlist_insert_head:
  assumes "is_dlist h l xs" and "dlist_usable h x" and "x \<notin> set xs"
  shows "\<exists>h'. LIST_INSERT_HEAD l (Some x) h = Inr h' \<and> is_dlist h' l (x # xs) \<and>
    same_outside (footprint (Insert_head l x) [xs]) h h'"
  using assms by (cases xs) (auto simp: dlist_defs dlist_usable_def LIST_INSERT_HEAD_def)

lemma dlist_insert_after:
  assumes "is_dlist h l (as @ y # bs)" and "dlist_usable h x" and "x \<notin> set (as @ y # bs)"
  shows "\<exists>h'. LIST_INSERT_AFTER (Some y) (Some x) h = Inr h' \<and> is_dlist h' l (as @ y # x # bs) \<and>
    same_outside (footprint (Insert_after l y x) [as @ y # bs]) h h'"
  using assms by (cases bs) (auto simp: dlist_defs dlist_usable_def LIST_INSERT_AFTER_def)

lemma dlist_insert_before:
  assumes "is_dlist h l (as @ y # bs)" and "dlist_usable h x" and "x \<notin> set (as @ y # bs)"
  shows "\<exists>h'. LIST_INSERT_BEFORE (Some y) (Some x) h = Inr h' \<and> is_dlist h' l (as @ x # y # bs) \<and>
    same_outside (footprint (Insert_before l y x) [as @ y # bs]) h h'"
proof -
  let ?e = "end_obj (Head l) as"
  have q: "chained (fwd h) (Head l) as (Some y)" "distinct as" using assms(1) by (auto simp: is_dlist_def chained_split)
  have "chained ((fwd h)(Elem x \<mapsto> Some y)) (Head l) as (Some y)" using q(1) assms(3) by simp
  from chained_redirect [OF this q(2), of "Some x"]
  have "chained ((fwd h)(Elem x \<mapsto> Some y, ?e \<mapsto> Some x)) (Head l) as (Some x)" by simp
  moreover have "?e \<notin> Elem ` set bs" "?e \<noteq> Elem y"
    using end_obj_in [of "Head l" as] assms(1) by (auto simp: is_dlist_def)
  ultimately show ?thesis
    using assms chained_end [OF q(1)]
    by (auto simp: dlist_defs dlist_usable_def LIST_INSERT_BEFORE_def)
qed

lemma dlist_remove:
  assumes "is_dlist h l (as @ y # bs)"
  shows "\<exists>h'. LIST_REMOVE (Some y) h = Inr h' \<and> is_dlist h' l (as @ bs) \<and>
    same_outside (footprint (Remove l y) [as @ y # bs]) h h'"
proof -
  let ?e = "end_obj (Head l) as"
  have q: "chained (fwd h) (Head l) as (Some y)" "distinct as" using assms(1) by (auto simp: is_dlist_def chained_split)
  from chained_redirect [OF q, of "head_ptr bs"]
  have "chained ((fwd h)(?e \<mapsto> head_ptr bs)) (Head l) as (head_ptr bs)" by simp
  moreover have "?e \<notin> Elem ` set bs" "?e \<noteq> Elem y"
    using end_obj_in [of "Head l" as] assms(1) by (auto simp: is_dlist_def)
  ultimately show ?thesis
    using assms chained_end [OF q(1)]
    by (cases bs) (auto simp: dlist_defs LIST_REMOVE_def)
qed

text \<open>Removal and release of an element, as the body of a safe loop.\<close>

definition dlist_discard :: "nat option \<Rightarrow> links \<Rightarrow> fault + links" where
  "dlist_discard var h = bindE (LIST_REMOVE var h) (free_elem var)"

lemma dlist_discard_law:
  assumes "is_dlist h l (x # xs)"
  shows "\<exists>h'. dlist_discard (Some x) h = Inr h' \<and> is_dlist h' l xs"
proof -
  obtain h1 where h1: "LIST_REMOVE (Some x) h = Inr h1" "is_dlist h1 l xs" "same_outside (footprint (Remove l x) [x # xs]) h h1"
    using dlist_remove [of h l "[]" x xs] assms by auto
  have "dom (fwd h1) = dom (fwd h)" using h1(3) by (simp add: same_outside_def changed_in_def)
  moreover have "Elem x \<in> dom (fwd h)" using assms chained_first [of "fwd h" "Elem x" xs] by (auto simp: is_dlist_def)
  ultimately have "fwd h1 (Elem x) \<noteq> None" by (auto simp: set_eq_iff domIff)
  then show ?thesis using h1(1,2) assms by (auto simp: dlist_discard_def free_elem_def is_dlist_def)
qed

interpretation dlist_drain: draining "\<lambda>h. is_dlist h l" "LIST_FIRST l" LIST_NEXT dlist_discard for l
  by unfold_locales (rule dlist_discard_law)

lemma dlist_drained:
  assumes "is_dlist h l xs"
  shows "\<exists>h'. LIST_FOREACH_SAFE l (drain dlist_discard) ([], h) = returns (map Some xs, h') \<and> is_dlist h' l []"
  using dlist_drain.foreach_safe_drain [where s = h and xs = xs and l = l and c = "[]"] assms dlist_first [OF assms]
  by (simp add: LIST_FOREACH_SAFE_def)

lemma dlist_concat:
  assumes "is_dlist h k xs" and "is_dlist h l ys" and "k \<noteq> l" and "set xs \<inter> set ys = {}"
  shows "\<exists>h'. LIST_CONCAT k l h = returns h' \<and> is_dlist h' k (xs @ ys) \<and> is_dlist h' l [] \<and>
    same_outside (footprint (Concat k l) [xs, ys]) h h'"
proof (cases xs rule: rev_cases)
  case Nil
  with assms show ?thesis by (cases ys) (auto simp: dlist_defs LIST_CONCAT_def)
next
  case (snoc ws z)
  have first: "LIST_FIRST k h = Inr (head_ptr (ws @ [z]))" using dlist_first [OF assms(1)] snoc by simp
  have find: "find_end LIST_NEXT (head_ptr (ws @ [z])) h = returns (Some z)"
    using dlist_walk.find_end_listed [where s = h and pre = "[]" and ws = ws and y = z and l = k] assms(1) snoc by simp
  show ?thesis
  proof (cases ys)
    case Nil
    with assms first snoc show ?thesis by (auto simp: dlist_defs LIST_CONCAT_def)
  next
    case (Cons y zs)
    have second: "LIST_FIRST l h = Inr (Some y)" using dlist_first [OF assms(2)] Cons by simp
    show ?thesis
      using assms snoc Cons
      by (auto simp: LIST_CONCAT_def first find second) (auto simp: dlist_defs)
  qed
qed

lemma dlist_swap:
  assumes "is_dlist h k xs" and "is_dlist h l ys" and "k \<noteq> l" and "set xs \<inter> set ys = {}"
  shows "\<exists>h'. LIST_SWAP k l h = Inr h' \<and> is_dlist h' k ys \<and> is_dlist h' l xs \<and>
    same_outside (footprint (Swap k l) [xs, ys]) h h'"
  using assms by (cases xs; cases ys) (auto simp: dlist_defs LIST_SWAP_def)

section \<open>Refinement\<close>

interpretation dlist: queue_macros is_dlist dlist_usable dlist_supported dlist_exec
proof
  show "is_dlist h' l xs"
    if "is_dlist h l xs" "\<forall>s \<in> insert (Head l) (Elem ` set xs). fwd h' s = fwd h s \<and> bwd h' s = bwd h s" for h h' l xs
    using that chained_agree [of "Head l" xs "fwd h'" "fwd h" None] backs_agree [of xs "bwd h'" "bwd h" "Head l"]
    by (simp add: is_dlist_def)
  show "dlist_usable h' x = dlist_usable h x" if "dom (fwd h') = dom (fwd h)" "dom (bwd h') = dom (bwd h)" for h h' x
    using that by (auto simp: dlist_usable_def dom_def set_eq_iff)
  show "\<exists>h'. dlist_exec op h = returns h' \<and> list_all2 (is_dlist h') (op_heads op) yss \<and> same_outside (footprint op xss) h h'"
    if "dlist_supported op" and rep: "list_all2 (is_dlist h) (op_heads op) xss" and eff: "op_effect op xss = Some yss"
      and "distinct (op_heads op)" and new: "distinct (concat xss @ op_new op)" and "list_all (dlist_usable h) (op_new op)"
    for op h xss yss
    using eff new
  proof (cases rule: effect_cases)
    case Init then show ?thesis using rep dlist_init by simp
  next
    case Insert_head then show ?thesis using that dlist_insert_head by simp
  next
    case Insert_after then show ?thesis using that dlist_insert_after by simp
  next
    case Insert_before then show ?thesis using that dlist_insert_before by simp
  next
    case Remove then show ?thesis using rep dlist_remove by simp
  next
    case Concat then show ?thesis using that dlist_concat by fastforce
  next
    case Swap then show ?thesis using that dlist_swap by fastforce
  qed (use that(1) in simp_all)
qed

lemma dlist_empty: "is_dlist h l xs \<Longrightarrow> LIST_EMPTY l h = Inr (xs = [])"
  using dlist_first by (simp add: LIST_EMPTY_def)

text \<open>The consistency checks accept every list.\<close>

lemma dlist_checks:
  assumes "is_dlist h l xs"
  shows "QMD_LIST_CHECK_HEAD l h = Inr False"
    and "x \<in> set xs \<Longrightarrow> QMD_LIST_CHECK_NEXT (Some x) h = Inr False"
    and "x \<in> set xs \<Longrightarrow> QMD_LIST_CHECK_PREV (Some x) h = Inr False"
proof -
  show "QMD_LIST_CHECK_HEAD l h = Inr False"
    using assms by (cases xs) (auto simp: is_dlist_def QMD_LIST_CHECK_HEAD_def LIST_FIRST_def)
  assume "x \<in> set xs"
  then obtain as bs where xs: "xs = as @ x # bs" by (auto dest: split_list)
  show "QMD_LIST_CHECK_NEXT (Some x) h = Inr False"
    using assms by (cases bs) (auto simp: xs is_dlist_def QMD_LIST_CHECK_NEXT_def LIST_NEXT_def chained_split backs_append)
  show "QMD_LIST_CHECK_PREV (Some x) h = Inr False"
    using assms chained_end [of "fwd h" "Head l" as "Some x"]
    by (auto simp: xs is_dlist_def QMD_LIST_CHECK_PREV_def chained_split backs_append)
qed

text \<open>The element before another, and the loops on a body that leaves the list alone.\<close>

lemma dlist_prev: "is_dlist h l (xs @ x # ys) \<Longrightarrow> LIST_PREV (Some x) l h = Inr (if xs = [] then None else Some (last xs))"
  using end_obj_last [of xs "Head l"] by (cases "xs = []") (auto simp: is_dlist_def LIST_PREV_def backs_append)

lemma dlist_loops:
  assumes "\<And>x c. x \<in> set xs \<Longrightarrow> body (Some x) (c, h) = returns (f x c, h)" and "is_dlist h l xs"
  shows "LIST_FOREACH l body (c, h) = returns (fold f xs c, h)"
    and "LIST_FOREACH_SAFE l body (c, h) = returns (fold f xs c, h)"
    and "LIST_FOREACH_FROM l body None (c, h) = returns (fold f xs c, h)"
    and "LIST_FOREACH_FROM_SAFE l body None (c, h) = returns (fold f xs c, h)"
  using dlist_walk.foreach_fold [where s = h and pre = "[]" and xs = xs and f = f and c = c and l = l and body = body]
    dlist_first [OF assms(2)] assms
  by (simp_all add: LIST_FOREACH_def LIST_FOREACH_SAFE_def LIST_FOREACH_FROM_def LIST_FOREACH_FROM_SAFE_def)

section \<open>Properties\<close>

text \<open>
  Property C21. The LIST macros implement lists. Let memory hold a family of lists with no element in two
  places, and let every element to be linked have an entry field. Then every sequence of operations
  (initialise, insert at the head, before or after an element, remove an element, concatenate,
  swap) that the list specification allows terminates without a fault, and memory then holds the
  family that the specification computes; in it, the macros for the first element and for emptiness
  give those of the lists, and the consistency checks of a kernel build would not panic. Insertion before an element and removal do not need the head.\<close>

theorem dlist_ops_refine:
  assumes "family is_dlist h Q" and "list_all dlist_supported ops"
    and "list_all (\<lambda>op. list_all (dlist_usable h) (op_new op)) ops" and "abs_run ops Q = Some Q'"
  shows "\<exists>h'. run_ops dlist_exec ops h = returns h' \<and> family is_dlist h' Q' \<and>
    (\<forall>l < length Q'. LIST_FIRST l h' = Inr (head_ptr (Q' ! l)) \<and> LIST_EMPTY l h' = Inr (Q' ! l = []) \<and> QMD_LIST_CHECK_HEAD l h' = Inr False \<and>
       (\<forall>x \<in> set (Q' ! l). QMD_LIST_CHECK_NEXT (Some x) h' = Inr False \<and> QMD_LIST_CHECK_PREV (Some x) h' = Inr False))"
proof -
  obtain h' where h': "run_ops dlist_exec ops h = returns h'" "family is_dlist h' Q'" using dlist.run_refines [OF assms] by blast
  then have q: "is_dlist h' l (Q' ! l)" if "l < length Q'" for l using that by (simp add: family_def)
  show ?thesis
    using h' by (intro exI [of _ h']) (simp add: dlist_first [OF q] dlist_empty [OF q] dlist_checks [OF q])
qed

definition example_dlist :: links where
  "example_dlist = \<lparr>fwd = [Head 0 \<mapsto> None, Head 1 \<mapsto> None, Elem 5 \<mapsto> None, Elem 6 \<mapsto> None, Elem 7 \<mapsto> None],
     bwd = [Elem 5 \<mapsto> Head 0, Elem 6 \<mapsto> Head 0, Elem 7 \<mapsto> Head 0]\<rparr>"

theorem dlist_ops_refine_witness:
  "\<exists>h'. run_ops dlist_exec [Insert_head 0 5, Insert_before 0 5 6, Insert_head 1 7, Swap 0 1, Concat 0 1, Remove 0 6] example_dlist = returns h' \<and>
     family is_dlist h' [[7, 5], []]"
proof -
  have "family is_dlist example_dlist [[], []]"
    by (auto simp: family_def separate_def is_dlist_def example_dlist_def less_Suc_eq)
  from dlist_ops_refine [OF this, of "[Insert_head 0 5, Insert_before 0 5 6, Insert_head 1 7, Swap 0 1, Concat 0 1, Remove 0 6]" "[[7, 5], []]"]
  show ?thesis by (auto simp: abs_step_def dlist_usable_def example_dlist_def)
qed

end
