(* ===== verification/Tailq.thy ===== *)
theory Tailq
  imports Queue_Spec
begin

text \<open>
  The tail queue, \<^verbatim>\<open>TAILQ\<close> of \<^verbatim>\<open>server/include/queue.h\<close>: a doubly linked list whose head also holds the
  address of the last next pointer. The macros for the last and the previous element read the
  entry field of an element as if it were a head, which works because both structures consist of
  a pointer and the address of a pointer; in the memory of \<open>Queue_Heap\<close> both are members \<open>fwd\<close> and \<open>bwd\<close>
  of a structure. The tracing of the macros (\<^verbatim>\<open>QUEUE_MACRO_DEBUG\<close>) is not compiled.
\<close>

section \<open>Macros\<close>

definition TAILQ_FIRST :: "nat \<Rightarrow> links \<Rightarrow> fault + nat option" where
  "TAILQ_FIRST head h = load_fwd (Head head) h"

definition TAILQ_EMPTY :: "nat \<Rightarrow> links \<Rightarrow> fault + bool" where
  "TAILQ_EMPTY head h = bindE (TAILQ_FIRST head h) (\<lambda>p. Inr (p = None))"

definition TAILQ_NEXT :: "nat option \<Rightarrow> links \<Rightarrow> fault + nat option" where
  "TAILQ_NEXT elm h = bindE (entry_of elm) (\<lambda>e. load_fwd e h)"

definition TAILQ_INIT :: "nat \<Rightarrow> links \<Rightarrow> fault + links" where
  "TAILQ_INIT head h = bindE (store_fwd (Head head) None h) (store_bwd (Head head) (Head head))"

text \<open>The initial members of a head that is declared with an initialiser.\<close>

definition TAILQ_HEAD_INITIALIZER :: "nat \<Rightarrow> nat option \<times> obj" where
  "TAILQ_HEAD_INITIALIZER head = (None, Head head)"

text \<open>
  The consistency checks, which a kernel built with \<^verbatim>\<open>INVARIANTS\<close> runs in the macros; other builds
  define them as empty. The result is whether the check panics.
\<close>

definition QMD_TAILQ_CHECK_HEAD :: "nat \<Rightarrow> links \<Rightarrow> fault + bool" where
  "QMD_TAILQ_CHECK_HEAD head h =
     bindE (TAILQ_FIRST head h) (\<lambda>p.
       if p \<noteq> None then bindE (entry_of p) (\<lambda>e. bindE (load_bwd e h) (\<lambda>prev. Inr (prev \<noteq> Head head)))
       else Inr False)"

definition QMD_TAILQ_CHECK_TAIL :: "nat \<Rightarrow> links \<Rightarrow> fault + bool" where
  "QMD_TAILQ_CHECK_TAIL head h =
     bindE (load_bwd (Head head) h) (\<lambda>last. bindE (load_fwd last h) (\<lambda>p. Inr (p \<noteq> None)))"

definition QMD_TAILQ_CHECK_NEXT :: "nat option \<Rightarrow> links \<Rightarrow> fault + bool" where
  "QMD_TAILQ_CHECK_NEXT elm h =
     bindE (entry_of elm) (\<lambda>e. bindE (TAILQ_NEXT elm h) (\<lambda>p.
       if p \<noteq> None then bindE (entry_of p) (\<lambda>n. bindE (load_bwd n h) (\<lambda>prev. Inr (prev \<noteq> e)))
       else Inr False))"

definition QMD_TAILQ_CHECK_PREV :: "nat option \<Rightarrow> links \<Rightarrow> fault + bool" where
  "QMD_TAILQ_CHECK_PREV elm h =
     bindE (entry_of elm) (\<lambda>e. bindE (load_bwd e h) (\<lambda>prev. bindE (load_fwd prev h) (\<lambda>p. Inr (p \<noteq> elm))))"

text \<open>The assignment \<^verbatim>\<open>p->field.tqe_prev = slot\<close>.\<close>

definition set_tqe_prev :: "nat option \<Rightarrow> obj \<Rightarrow> links \<Rightarrow> fault + links" where
  "set_tqe_prev p slot h = bindE (entry_of p) (\<lambda>e. store_bwd e slot h)"

definition TAILQ_CONCAT :: "nat \<Rightarrow> nat \<Rightarrow> links \<Rightarrow> fault + links" where
  "TAILQ_CONCAT head1 head2 h =
     bindE (TAILQ_EMPTY head2 h) (\<lambda>empty.
       if \<not> empty then
         bindE (load_bwd (Head head1) h) (\<lambda>last1.
         bindE (TAILQ_FIRST head2 h) (\<lambda>first2.
         bindE (store_fwd last1 first2 h) (\<lambda>h1.
         bindE (TAILQ_FIRST head2 h1) (\<lambda>p.
         bindE (load_bwd (Head head1) h1) (\<lambda>last.
         bindE (set_tqe_prev p last h1) (\<lambda>h2.
         bindE (load_bwd (Head head2) h2) (\<lambda>last2.
         bindE (store_bwd (Head head1) last2 h2) (TAILQ_INIT head2))))))))
       else Inr h)"

definition TAILQ_INSERT_AFTER :: "nat \<Rightarrow> nat option \<Rightarrow> nat option \<Rightarrow> links \<Rightarrow> fault + links" where
  "TAILQ_INSERT_AFTER head listelm elm h =
     bindE (entry_of elm) (\<lambda>e. bindE (entry_of listelm) (\<lambda>t.
     bindE (TAILQ_NEXT listelm h) (\<lambda>p.
     bindE (store_fwd e p h) (\<lambda>h1.
     bindE (if p \<noteq> None then bindE (TAILQ_NEXT elm h1) (\<lambda>q. set_tqe_prev q e h1)
            else store_bwd (Head head) e h1) (\<lambda>h2.
     bindE (store_fwd t elm h2) (store_bwd e t))))))"

definition TAILQ_INSERT_BEFORE :: "nat option \<Rightarrow> nat option \<Rightarrow> links \<Rightarrow> fault + links" where
  "TAILQ_INSERT_BEFORE listelm elm h =
     bindE (entry_of elm) (\<lambda>e. bindE (entry_of listelm) (\<lambda>t.
     bindE (load_bwd t h) (\<lambda>prev.
     bindE (store_bwd e prev h) (\<lambda>h1.
     bindE (store_fwd e listelm h1) (\<lambda>h2.
     bindE (load_bwd t h2) (\<lambda>prev2.
     bindE (store_fwd prev2 elm h2) (store_bwd t e)))))))"

definition TAILQ_INSERT_HEAD :: "nat \<Rightarrow> nat option \<Rightarrow> links \<Rightarrow> fault + links" where
  "TAILQ_INSERT_HEAD head elm h =
     bindE (entry_of elm) (\<lambda>e.
     bindE (TAILQ_FIRST head h) (\<lambda>p.
     bindE (store_fwd e p h) (\<lambda>h1.
     bindE (if p \<noteq> None then bindE (TAILQ_FIRST head h1) (\<lambda>q. set_tqe_prev q e h1)
            else store_bwd (Head head) e h1) (\<lambda>h2.
     bindE (store_fwd (Head head) elm h2) (store_bwd e (Head head))))))"

definition TAILQ_INSERT_TAIL :: "nat \<Rightarrow> nat option \<Rightarrow> links \<Rightarrow> fault + links" where
  "TAILQ_INSERT_TAIL head elm h =
     bindE (entry_of elm) (\<lambda>e.
     bindE (store_fwd e None h) (\<lambda>h1.
     bindE (load_bwd (Head head) h1) (\<lambda>last.
     bindE (store_bwd e last h1) (\<lambda>h2.
     bindE (load_bwd (Head head) h2) (\<lambda>last2.
     bindE (store_fwd last2 elm h2) (store_bwd (Head head) e))))))"

definition TAILQ_LAST :: "nat \<Rightarrow> links \<Rightarrow> fault + nat option" where
  "TAILQ_LAST head h = bindE (load_bwd (Head head) h) (\<lambda>s. bindE (load_bwd s h) (\<lambda>s'. load_fwd s' h))"

definition TAILQ_PREV :: "nat option \<Rightarrow> links \<Rightarrow> fault + nat option" where
  "TAILQ_PREV elm h =
     bindE (entry_of elm) (\<lambda>e. bindE (load_bwd e h) (\<lambda>s. bindE (load_bwd s h) (\<lambda>s'. load_fwd s' h)))"

definition TAILQ_REMOVE :: "nat \<Rightarrow> nat option \<Rightarrow> links \<Rightarrow> fault + links" where
  "TAILQ_REMOVE head elm h =
     bindE (entry_of elm) (\<lambda>e.
     bindE (TAILQ_NEXT elm h) (\<lambda>p.
     bindE (bindE (load_bwd e h) (\<lambda>prev.
              if p \<noteq> None then set_tqe_prev p prev h else store_bwd (Head head) prev h)) (\<lambda>h1.
     bindE (load_bwd e h1) (\<lambda>prev.
     bindE (TAILQ_NEXT elm h1) (\<lambda>q. store_fwd prev q h1)))))"

definition TAILQ_SWAP :: "nat \<Rightarrow> nat \<Rightarrow> links \<Rightarrow> fault + links" where
  "TAILQ_SWAP head1 head2 h =
     bindE (TAILQ_FIRST head1 h) (\<lambda>swap_first.
     bindE (load_bwd (Head head1) h) (\<lambda>swap_last.
     bindE (TAILQ_FIRST head2 h) (\<lambda>first2.
     bindE (store_fwd (Head head1) first2 h) (\<lambda>h1.
     bindE (load_bwd (Head head2) h1) (\<lambda>last2.
     bindE (store_bwd (Head head1) last2 h1) (\<lambda>h2.
     bindE (store_fwd (Head head2) swap_first h2) (\<lambda>h3.
     bindE (store_bwd (Head head2) swap_last h3) (\<lambda>h4.
     bindE (TAILQ_FIRST head1 h4) (\<lambda>first1.
     bindE (if first1 \<noteq> None then set_tqe_prev first1 (Head head1) h4 else store_bwd (Head head1) (Head head1) h4) (\<lambda>h5.
     bindE (TAILQ_FIRST head2 h5) (\<lambda>first2.
       if first2 \<noteq> None then set_tqe_prev first2 (Head head2) h5 else store_bwd (Head head2) (Head head2) h5)))))))))))"

text \<open>The loops, from the first and from the last element.\<close>

definition TAILQ_FOREACH where
  "TAILQ_FOREACH head body st = bindT (Some (TAILQ_FIRST head (snd st))) (\<lambda>var. foreach TAILQ_NEXT body var st)"

definition TAILQ_FOREACH_FROM where
  "TAILQ_FOREACH_FROM head body var st =
     bindT (if var \<noteq> None then returns var else Some (TAILQ_FIRST head (snd st))) (\<lambda>var. foreach TAILQ_NEXT body var st)"

definition TAILQ_FOREACH_SAFE where
  "TAILQ_FOREACH_SAFE head body st = bindT (Some (TAILQ_FIRST head (snd st))) (\<lambda>var. foreach_safe TAILQ_NEXT body var st)"

definition TAILQ_FOREACH_FROM_SAFE where
  "TAILQ_FOREACH_FROM_SAFE head body var st =
     bindT (if var \<noteq> None then returns var else Some (TAILQ_FIRST head (snd st))) (\<lambda>var. foreach_safe TAILQ_NEXT body var st)"

definition TAILQ_FOREACH_REVERSE where
  "TAILQ_FOREACH_REVERSE head body st = bindT (Some (TAILQ_LAST head (snd st))) (\<lambda>var. foreach TAILQ_PREV body var st)"

definition TAILQ_FOREACH_REVERSE_FROM where
  "TAILQ_FOREACH_REVERSE_FROM head body var st =
     bindT (if var \<noteq> None then returns var else Some (TAILQ_LAST head (snd st))) (\<lambda>var. foreach TAILQ_PREV body var st)"

definition TAILQ_FOREACH_REVERSE_SAFE where
  "TAILQ_FOREACH_REVERSE_SAFE head body st = bindT (Some (TAILQ_LAST head (snd st))) (\<lambda>var. foreach_safe TAILQ_PREV body var st)"

definition TAILQ_FOREACH_REVERSE_FROM_SAFE where
  "TAILQ_FOREACH_REVERSE_FROM_SAFE head body var st =
     bindT (if var \<noteq> None then returns var else Some (TAILQ_LAST head (snd st))) (\<lambda>var. foreach_safe TAILQ_PREV body var st)"

section \<open>Representation\<close>

definition is_tailq :: "links \<Rightarrow> nat \<Rightarrow> nat list \<Rightarrow> bool" where
  "is_tailq h l xs \<longleftrightarrow> chained (fwd h) (Head l) xs None \<and> backs (bwd h) (Head l) xs \<and>
     bwd h (Head l) = Some (end_obj (Head l) xs) \<and> distinct xs"

definition tailq_usable :: "links \<Rightarrow> nat \<Rightarrow> bool" where
  "tailq_usable h x \<longleftrightarrow> fwd h (Elem x) \<noteq> None \<and> bwd h (Elem x) \<noteq> None"

text \<open>The macro of an operation; there are none for removal relative to a position.\<close>

fun tailq_exec :: "queue_op \<Rightarrow> links \<Rightarrow> (fault + links) option" where
  "tailq_exec (Init l) h = Some (TAILQ_INIT l h)"
| "tailq_exec (Insert_head l x) h = Some (TAILQ_INSERT_HEAD l (Some x) h)"
| "tailq_exec (Insert_tail l x) h = Some (TAILQ_INSERT_TAIL l (Some x) h)"
| "tailq_exec (Insert_after l y x) h = Some (TAILQ_INSERT_AFTER l (Some y) (Some x) h)"
| "tailq_exec (Insert_before l y x) h = Some (TAILQ_INSERT_BEFORE (Some y) (Some x) h)"
| "tailq_exec (Remove l y) h = Some (TAILQ_REMOVE l (Some y) h)"
| "tailq_exec (Concat k l) h = Some (TAILQ_CONCAT k l h)"
| "tailq_exec (Swap k l) h = Some (TAILQ_SWAP k l h)"
| "tailq_exec _ h = None"

fun tailq_supported :: "queue_op \<Rightarrow> bool" where
  "tailq_supported (Remove_head l) = False"
| "tailq_supported (Remove_after l y) = False"
| "tailq_supported _ = True"

lemmas tailq_defs = is_tailq_def TAILQ_FIRST_def TAILQ_EMPTY_def TAILQ_NEXT_def TAILQ_INIT_def set_tqe_prev_def chained_split
  backs_append same_outside_def

lemma tailq_first: "is_tailq h l xs \<Longrightarrow> TAILQ_FIRST l h = Inr (head_ptr xs)"
  using chained_first by (auto simp: is_tailq_def TAILQ_FIRST_def)

lemma tailq_next: "is_tailq h l (xs @ x # ys) \<Longrightarrow> TAILQ_NEXT (Some x) h = Inr (head_ptr ys)"
  using chained_first by (fastforce simp: is_tailq_def TAILQ_NEXT_def chained_split)

text \<open>Read as a head, the structure that holds a pointer leads back to the element before.\<close>

lemma tailq_back:
  assumes "is_tailq h l (xs @ ys)"
  shows "bindE (load_bwd (end_obj (Head l) xs) h) (\<lambda>s. load_fwd s h) = Inr (head_ptr (rev xs))"
proof (cases xs rule: rev_cases)
  case Nil
  with assms chained_end [of "fwd h" "Head l" ys None] show ?thesis by (simp add: is_tailq_def)
next
  case (snoc ws z)
  have "chained (fwd h) (Head l) ws (Some z)" "bwd h (Elem z) = Some (end_obj (Head l) ws)"
    using assms snoc by (auto simp: is_tailq_def chained_split backs_append)
  with snoc chained_end [of "fwd h" "Head l" ws "Some z"] show ?thesis by simp
qed

lemma tailq_last: "is_tailq h l xs \<Longrightarrow> TAILQ_LAST l h = Inr (head_ptr (rev xs))"
  using tailq_back [of h l xs "[]"] by (simp add: TAILQ_LAST_def is_tailq_def)

lemma tailq_prev:
  assumes "is_tailq h l (xs @ x # ys)"
  shows "TAILQ_PREV (Some x) h = Inr (head_ptr (rev xs))"
proof -
  have "bwd h (Elem x) = Some (end_obj (Head l) xs)" using assms by (simp add: is_tailq_def backs_append)
  then show ?thesis using tailq_back [OF assms] by (simp add: TAILQ_PREV_def)
qed

interpretation tailq_walk: traversal "\<lambda>h. is_tailq h l" "TAILQ_FIRST l" TAILQ_NEXT for l
  by unfold_locales (rule tailq_first tailq_next, assumption)+

interpretation tailq_reverse: traversal "\<lambda>h xs. is_tailq h l (rev xs)" "TAILQ_LAST l" TAILQ_PREV for l
proof
  show "TAILQ_LAST l h = Inr (head_ptr xs)" if "is_tailq h l (rev xs)" for h xs
    using tailq_last [OF that] by simp
  show "TAILQ_PREV (Some x) h = Inr (head_ptr ys)" if "is_tailq h l (rev (xs @ x # ys))" for h xs x ys
    using tailq_prev [of h l "rev ys" x "rev xs"] that by simp
qed

lemma tailq_empty: "is_tailq h l xs \<Longrightarrow> TAILQ_EMPTY l h = Inr (xs = [])"
  using tailq_first by (simp add: TAILQ_EMPTY_def)

text \<open>The consistency checks accept every list.\<close>

lemma tailq_checks:
  assumes "is_tailq h l xs"
  shows "QMD_TAILQ_CHECK_HEAD l h = Inr False"
    and "QMD_TAILQ_CHECK_TAIL l h = Inr False"
    and "x \<in> set xs \<Longrightarrow> QMD_TAILQ_CHECK_NEXT (Some x) h = Inr False"
    and "x \<in> set xs \<Longrightarrow> QMD_TAILQ_CHECK_PREV (Some x) h = Inr False"
proof -
  show "QMD_TAILQ_CHECK_HEAD l h = Inr False"
    using assms by (cases xs) (auto simp: is_tailq_def QMD_TAILQ_CHECK_HEAD_def TAILQ_FIRST_def)
  show "QMD_TAILQ_CHECK_TAIL l h = Inr False"
    using assms chained_end [of "fwd h" "Head l" xs None] by (auto simp: is_tailq_def QMD_TAILQ_CHECK_TAIL_def)
  assume "x \<in> set xs"
  then obtain as bs where xs: "xs = as @ x # bs" by (auto dest: split_list)
  show "QMD_TAILQ_CHECK_NEXT (Some x) h = Inr False"
    using assms by (cases bs) (auto simp: xs is_tailq_def QMD_TAILQ_CHECK_NEXT_def TAILQ_NEXT_def chained_split backs_append)
  show "QMD_TAILQ_CHECK_PREV (Some x) h = Inr False"
    using assms chained_end [of "fwd h" "Head l" as "Some x"]
    by (auto simp: xs is_tailq_def QMD_TAILQ_CHECK_PREV_def chained_split backs_append)
qed

text \<open>The loops on a body that leaves the queue alone, in both directions.\<close>

lemma tailq_loops:
  assumes "\<And>x c. x \<in> set xs \<Longrightarrow> body (Some x) (c, h) = returns (f x c, h)" and "is_tailq h l xs"
  shows "TAILQ_FOREACH l body (c, h) = returns (fold f xs c, h)"
    and "TAILQ_FOREACH_SAFE l body (c, h) = returns (fold f xs c, h)"
    and "TAILQ_FOREACH_FROM l body None (c, h) = returns (fold f xs c, h)"
    and "TAILQ_FOREACH_FROM_SAFE l body None (c, h) = returns (fold f xs c, h)"
  using tailq_walk.foreach_fold [where s = h and pre = "[]" and xs = xs and f = f and c = c and l = l and body = body]
    tailq_first [OF assms(2)] assms
  by (simp_all add: TAILQ_FOREACH_def TAILQ_FOREACH_SAFE_def TAILQ_FOREACH_FROM_def TAILQ_FOREACH_FROM_SAFE_def)

lemma tailq_reverse_loops:
  assumes "\<And>x c. x \<in> set xs \<Longrightarrow> body (Some x) (c, h) = returns (f x c, h)" and "is_tailq h l xs"
  shows "TAILQ_FOREACH_REVERSE l body (c, h) = returns (fold f (rev xs) c, h)"
    and "TAILQ_FOREACH_REVERSE_SAFE l body (c, h) = returns (fold f (rev xs) c, h)"
    and "TAILQ_FOREACH_REVERSE_FROM l body None (c, h) = returns (fold f (rev xs) c, h)"
    and "TAILQ_FOREACH_REVERSE_FROM_SAFE l body None (c, h) = returns (fold f (rev xs) c, h)"
  using tailq_reverse.foreach_fold [where s = h and pre = "[]" and xs = "rev xs" and f = f and c = c and l = l and body = body]
    tailq_last [OF assms(2)] assms
  by (simp_all add: TAILQ_FOREACH_REVERSE_def TAILQ_FOREACH_REVERSE_SAFE_def TAILQ_FOREACH_REVERSE_FROM_def
      TAILQ_FOREACH_REVERSE_FROM_SAFE_def)

text \<open>One law per operation.\<close>

lemma tailq_fresh:
  shows "\<lbrakk>fwd h (Head l) \<noteq> None; bwd h (Head l) \<noteq> None\<rbrakk> \<Longrightarrow> \<exists>h'. TAILQ_INIT l h = Inr h' \<and> is_tailq h' l []"
    and "\<lbrakk>fwd h (Head l) = Some p; bwd h (Head l) = Some q; TAILQ_HEAD_INITIALIZER l = (p, q)\<rbrakk> \<Longrightarrow> is_tailq h l []"
  by (auto simp: is_tailq_def TAILQ_INIT_def TAILQ_HEAD_INITIALIZER_def)

lemma tailq_init:
  assumes "is_tailq h l xs"
  shows "\<exists>h'. TAILQ_INIT l h = Inr h' \<and> is_tailq h' l [] \<and> same_outside (footprint (Init l) [xs]) h h'"
  using assms chained_first [of "fwd h" "Head l" xs] by (auto simp: tailq_defs)

lemma tailq_insert_head:
  assumes "is_tailq h l xs" and "tailq_usable h x" and "x \<notin> set xs"
  shows "\<exists>h'. TAILQ_INSERT_HEAD l (Some x) h = Inr h' \<and> is_tailq h' l (x # xs) \<and>
    same_outside (footprint (Insert_head l x) [xs]) h h'"
  using assms by (cases xs) (auto simp: tailq_defs tailq_usable_def TAILQ_INSERT_HEAD_def)

lemma tailq_insert_tail:
  assumes "is_tailq h l xs" and "tailq_usable h x" and "x \<notin> set xs"
  shows "\<exists>h'. TAILQ_INSERT_TAIL l (Some x) h = Inr h' \<and> is_tailq h' l (xs @ [x]) \<and>
    same_outside (footprint (Insert_tail l x) [xs]) h h'"
proof -
  let ?e = "end_obj (Head l) xs"
  have q: "chained (fwd h) (Head l) xs None" "distinct xs" using assms(1) by (auto simp: is_tailq_def)
  have "chained ((fwd h)(Elem x \<mapsto> None)) (Head l) xs None" using q(1) assms(3) by simp
  from chained_redirect [OF this q(2), of "Some x"]
  have "chained ((fwd h)(Elem x \<mapsto> None, ?e \<mapsto> Some x)) (Head l) xs (Some x)" by simp
  then show ?thesis
    using assms chained_end [OF q(1)] by (auto simp: tailq_defs tailq_usable_def TAILQ_INSERT_TAIL_def)
qed

lemma tailq_insert_after:
  assumes "is_tailq h l (as @ y # bs)" and "tailq_usable h x" and "x \<notin> set (as @ y # bs)"
  shows "\<exists>h'. TAILQ_INSERT_AFTER l (Some y) (Some x) h = Inr h' \<and> is_tailq h' l (as @ y # x # bs) \<and>
    same_outside (footprint (Insert_after l y x) [as @ y # bs]) h h'"
  using assms by (cases bs) (auto simp: tailq_defs tailq_usable_def TAILQ_INSERT_AFTER_def)

lemma tailq_insert_before:
  assumes "is_tailq h l (as @ y # bs)" and "tailq_usable h x" and "x \<notin> set (as @ y # bs)"
  shows "\<exists>h'. TAILQ_INSERT_BEFORE (Some y) (Some x) h = Inr h' \<and> is_tailq h' l (as @ x # y # bs) \<and>
    same_outside (footprint (Insert_before l y x) [as @ y # bs]) h h'"
proof -
  let ?e = "end_obj (Head l) as"
  have q: "chained (fwd h) (Head l) as (Some y)" "distinct as" using assms(1) by (auto simp: is_tailq_def chained_split)
  have "chained ((fwd h)(Elem x \<mapsto> Some y)) (Head l) as (Some y)" using q(1) assms(3) by simp
  from chained_redirect [OF this q(2), of "Some x"]
  have "chained ((fwd h)(Elem x \<mapsto> Some y, ?e \<mapsto> Some x)) (Head l) as (Some x)" by simp
  moreover have "?e \<notin> Elem ` set bs" "?e \<noteq> Elem y"
    using end_obj_in [of "Head l" as] assms(1) by (auto simp: is_tailq_def)
  ultimately show ?thesis
    using assms chained_end [OF q(1)] by (auto simp: tailq_defs tailq_usable_def TAILQ_INSERT_BEFORE_def)
qed

lemma tailq_remove:
  assumes "is_tailq h l (as @ y # bs)"
  shows "\<exists>h'. TAILQ_REMOVE l (Some y) h = Inr h' \<and> is_tailq h' l (as @ bs) \<and>
    same_outside (footprint (Remove l y) [as @ y # bs]) h h'"
proof -
  let ?e = "end_obj (Head l) as"
  have q: "chained (fwd h) (Head l) as (Some y)" "distinct as" using assms(1) by (auto simp: is_tailq_def chained_split)
  from chained_redirect [OF q, of "head_ptr bs"]
  have "chained ((fwd h)(?e \<mapsto> head_ptr bs)) (Head l) as (head_ptr bs)" by simp
  moreover have "?e \<notin> Elem ` set bs" "?e \<noteq> Elem y"
    using end_obj_in [of "Head l" as] assms(1) by (auto simp: is_tailq_def)
  ultimately show ?thesis
    using assms chained_end [OF q(1)] by (cases bs) (auto simp: tailq_defs TAILQ_REMOVE_def)
qed

text \<open>Removal and release of an element, as the body of a safe loop.\<close>

definition tailq_discard :: "nat \<Rightarrow> nat option \<Rightarrow> links \<Rightarrow> fault + links" where
  "tailq_discard l var h = bindE (TAILQ_REMOVE l var h) (free_elem var)"

lemma tailq_discard_law:
  assumes "is_tailq h l (as @ x # bs)"
  shows "\<exists>h'. tailq_discard l (Some x) h = Inr h' \<and> is_tailq h' l (as @ bs)"
proof -
  obtain h1 where h1: "TAILQ_REMOVE l (Some x) h = Inr h1" "is_tailq h1 l (as @ bs)"
      "same_outside (footprint (Remove l x) [as @ x # bs]) h h1"
    using tailq_remove [OF assms] by blast
  have "dom (fwd h1) = dom (fwd h)" using h1(3) by (simp add: same_outside_def changed_in_def)
  moreover have "fwd h (Elem x) \<noteq> None"
    using assms chained_first [of "fwd h" "Elem x" bs] by (auto simp: is_tailq_def chained_split)
  ultimately have "fwd h1 (Elem x) \<noteq> None" by (auto simp: set_eq_iff domIff)
  moreover have "x \<notin> set (as @ bs)" using assms by (simp add: is_tailq_def)
  ultimately show ?thesis using h1(1,2) by (auto simp: tailq_discard_def free_elem_def is_tailq_def)
qed

interpretation tailq_drain: draining "\<lambda>h. is_tailq h l" "TAILQ_FIRST l" TAILQ_NEXT "tailq_discard l" for l
  by unfold_locales (use tailq_discard_law [where as = "[]"] in simp)

interpretation tailq_drain_reverse: draining "\<lambda>h xs. is_tailq h l (rev xs)" "TAILQ_LAST l" TAILQ_PREV "tailq_discard l" for l
  by unfold_locales (use tailq_discard_law [where bs = "[]"] in simp)

lemma tailq_concat:
  assumes "is_tailq h k xs" and "is_tailq h l ys" and "k \<noteq> l" and "set xs \<inter> set ys = {}"
  shows "\<exists>h'. TAILQ_CONCAT k l h = Inr h' \<and> is_tailq h' k (xs @ ys) \<and> is_tailq h' l [] \<and>
    same_outside (footprint (Concat k l) [xs, ys]) h h'"
proof (cases ys)
  case Nil
  with assms show ?thesis by (auto simp: tailq_defs TAILQ_CONCAT_def)
next
  case (Cons y zs)
  let ?e = "end_obj (Head k) xs"
  have q: "chained (fwd h) (Head k) xs None" "distinct xs" using assms(1) by (auto simp: is_tailq_def)
  have "chained ((fwd h)(?e \<mapsto> Some y)) (Head k) xs (Some y)" using chained_redirect [OF q] by simp
  moreover have "?e \<noteq> Head l" "?e \<notin> Elem ` set ys" using end_obj_in [of "Head k" xs] assms(3,4) by auto
  ultimately show ?thesis
    using assms Cons chained_end [OF q(1)] by (auto simp: tailq_defs TAILQ_CONCAT_def)
qed

lemma tailq_swap:
  assumes "is_tailq h k xs" and "is_tailq h l ys" and "k \<noteq> l" and "set xs \<inter> set ys = {}"
  shows "\<exists>h'. TAILQ_SWAP k l h = Inr h' \<and> is_tailq h' k ys \<and> is_tailq h' l xs \<and>
    same_outside (footprint (Swap k l) [xs, ys]) h h'"
  using assms by (cases xs; cases ys) (auto simp: tailq_defs TAILQ_SWAP_def)

section \<open>Refinement\<close>

interpretation tailq: queue_macros is_tailq tailq_usable tailq_supported tailq_exec
proof
  show "is_tailq h' l xs"
    if "is_tailq h l xs" "\<forall>s \<in> insert (Head l) (Elem ` set xs). fwd h' s = fwd h s \<and> bwd h' s = bwd h s" for h h' l xs
    using that chained_agree [of "Head l" xs "fwd h'" "fwd h" None] backs_agree [of xs "bwd h'" "bwd h" "Head l"]
    by (simp add: is_tailq_def)
  show "tailq_usable h' x = tailq_usable h x" if "dom (fwd h') = dom (fwd h)" "dom (bwd h') = dom (bwd h)" for h h' x
    using that by (auto simp: tailq_usable_def dom_def set_eq_iff)
  show "\<exists>h'. tailq_exec op h = returns h' \<and> list_all2 (is_tailq h') (op_heads op) yss \<and> same_outside (footprint op xss) h h'"
    if "tailq_supported op" and rep: "list_all2 (is_tailq h) (op_heads op) xss" and eff: "op_effect op xss = Some yss"
      and "distinct (op_heads op)" and new: "distinct (concat xss @ op_new op)" and "list_all (tailq_usable h) (op_new op)"
    for op h xss yss
    using eff new
  proof (cases rule: effect_cases)
    case Init then show ?thesis using rep tailq_init by simp
  next
    case Insert_head then show ?thesis using that tailq_insert_head by simp
  next
    case Insert_tail then show ?thesis using that tailq_insert_tail by simp
  next
    case Insert_after then show ?thesis using that tailq_insert_after by simp
  next
    case Insert_before then show ?thesis using that tailq_insert_before by simp
  next
    case Remove then show ?thesis using rep tailq_remove by simp
  next
    case Concat then show ?thesis using that tailq_concat by fastforce
  next
    case Swap then show ?thesis using that tailq_swap by fastforce
  qed (use that(1) in simp_all)
qed

section \<open>Properties\<close>

text \<open>
  Property C19. The TAILQ macros implement lists. Let memory hold a family of tail queues with no element in two
  places, and let every element to be linked have an entry field. Then every sequence of operations
  (initialise, insert at the head, at the tail, before or after an element, remove an element,
  concatenate, swap) that the list specification allows terminates without a fault, and memory
  then holds the family that the specification computes; in it, the macros for the first and the
  last element and for emptiness give those of the lists, and the consistency checks of a kernel
  build would not panic.\<close>

theorem tailq_ops_refine:
  assumes "family is_tailq h Q" and "list_all tailq_supported ops"
    and "list_all (\<lambda>op. list_all (tailq_usable h) (op_new op)) ops" and "abs_run ops Q = Some Q'"
  shows "\<exists>h'. run_ops tailq_exec ops h = returns h' \<and> family is_tailq h' Q' \<and>
    (\<forall>l < length Q'. TAILQ_FIRST l h' = Inr (head_ptr (Q' ! l)) \<and> TAILQ_EMPTY l h' = Inr (Q' ! l = []) \<and>
       TAILQ_LAST l h' = Inr (head_ptr (rev (Q' ! l))) \<and>
       QMD_TAILQ_CHECK_HEAD l h' = Inr False \<and> QMD_TAILQ_CHECK_TAIL l h' = Inr False \<and>
       (\<forall>x \<in> set (Q' ! l). QMD_TAILQ_CHECK_NEXT (Some x) h' = Inr False \<and> QMD_TAILQ_CHECK_PREV (Some x) h' = Inr False))"
proof -
  obtain h' where h': "run_ops tailq_exec ops h = returns h'" "family is_tailq h' Q'" using tailq.run_refines [OF assms] by blast
  then have q: "is_tailq h' l (Q' ! l)" if "l < length Q'" for l using that by (simp add: family_def)
  show ?thesis
    using h' by (intro exI [of _ h']) (simp add: tailq_first [OF q] tailq_last [OF q] tailq_empty [OF q] tailq_checks [OF q])
qed

definition example_tailq :: links where
  "example_tailq = \<lparr>fwd = [Head 0 \<mapsto> None, Head 1 \<mapsto> None, Elem 5 \<mapsto> None, Elem 6 \<mapsto> None, Elem 7 \<mapsto> None],
     bwd = [Head 0 \<mapsto> Head 0, Head 1 \<mapsto> Head 1, Elem 5 \<mapsto> Head 0, Elem 6 \<mapsto> Head 0, Elem 7 \<mapsto> Head 0]\<rparr>"

theorem tailq_ops_refine_witness:
  "\<exists>h'. run_ops tailq_exec [Insert_tail 0 5, Insert_before 0 5 6, Insert_tail 1 7, Swap 0 1, Concat 0 1, Remove 0 5] example_tailq = returns h' \<and>
     family is_tailq h' [[7, 6], []]"
proof -
  have "family is_tailq example_tailq [[], []]"
    by (auto simp: family_def separate_def is_tailq_def example_tailq_def less_Suc_eq)
  from tailq_ops_refine [OF this, of "[Insert_tail 0 5, Insert_before 0 5 6, Insert_tail 1 7, Swap 0 1, Concat 0 1, Remove 0 5]" "[[7, 6], []]"]
  show ?thesis by (auto simp: abs_step_def tailq_usable_def example_tailq_def)
qed

definition example_pair :: links where
  "example_pair = \<lparr>fwd = [Head 0 \<mapsto> Some 5, Elem 5 \<mapsto> Some 6, Elem 6 \<mapsto> None],
     bwd = [Head 0 \<mapsto> Elem 6, Elem 5 \<mapsto> Head 0, Elem 6 \<mapsto> Elem 5]\<rparr>"

lemma example_pair_tailq: "is_tailq example_pair 0 [5, 6]"
  by (simp add: is_tailq_def example_pair_def)

text \<open>
  Property C20. The safe loops allow their body to remove the current element from the tail queue and to
  free it: in both directions they visit every element once, never touch a freed element, and
  leave an empty queue.\<close>

theorem tailq_safe_loops_allow_removal:
  assumes "is_tailq h l xs"
  shows "(\<exists>h'. TAILQ_FOREACH_SAFE l (drain (tailq_discard l)) ([], h) = returns (map Some xs, h') \<and> is_tailq h' l []) \<and>
    (\<exists>h'. TAILQ_FOREACH_REVERSE_SAFE l (drain (tailq_discard l)) ([], h) = returns (map Some (rev xs), h') \<and> is_tailq h' l [])"
  using tailq_drain.foreach_safe_drain [where s = h and xs = xs and l = l and c = "[]"]
    tailq_drain_reverse.foreach_safe_drain [where s = h and xs = "rev xs" and l = l and c = "[]"]
    assms tailq_first [OF assms] tailq_last [OF assms]
  by (simp add: TAILQ_FOREACH_SAFE_def TAILQ_FOREACH_REVERSE_SAFE_def)

theorem tailq_safe_loops_allow_removal_witness:
  "\<exists>h'. TAILQ_FOREACH_REVERSE_SAFE 0 (drain (tailq_discard 0)) ([], example_pair) = returns ([Some 6, Some 5], h') \<and> is_tailq h' 0 []"
  using tailq_safe_loops_allow_removal [OF example_pair_tailq] by simp

end
