(* ===== verification/Driver_Session.thy ===== *)
theory Driver_Session
  imports Driver_Spec
begin

text \<open>
  The life of the loaded character driver: open files with their positions, any interleaving of
  the file operations of \<^verbatim>\<open>aesd-char-driver/main.c\<close> on them, and activity of the rest of the kernel
  between them. The file operations hold the device mutex from their first to their last access
  to the device, so a run is a sequence of whole operations.
\<close>

section \<open>Runs\<close>

record 'e session =
  loaded :: "'e driver"
  files :: "nat \<rightharpoonup> struct_file \<times> loff_t"

datatype event =
    Opened nat
  | Written nat "byte list" size_t ssize_t
  | Delivered nat "byte list"
  | Released nat
  | Elsewhere

text \<open>
  A file is opened with no private data and at position 0. The virtual file system passes counts
  of at most \<^verbatim>\<open>MAX_RW_COUNT\<close>. The rest of the kernel does anything to memory that the driver does
  not own.
\<close>

inductive session_step :: "'e kernel_api \<Rightarrow> 'e session \<Rightarrow> event \<Rightarrow> 'e session \<Rightarrow> bool" for K where
  step_open: "\<lbrakk>files s fd = None; aesd_open \<lparr>private_data = None\<rparr> = (0, filp)\<rbrakk>
     \<Longrightarrow> session_step K s (Opened fd) (s\<lparr>files := (files s)(fd \<mapsto> (filp, 0))\<rparr>)"
| step_write: "\<lbrakk>files s fd = Some (filp, pos); unat count \<le> max_rw_count;
     aesd_write K filp buf count pos (loaded s) = Inr (ret, pos', d)\<rbrakk>
     \<Longrightarrow> session_step K s (Written fd buf count ret) \<lparr>loaded = d, files = (files s)(fd \<mapsto> (filp, pos'))\<rparr>"
| step_read: "\<lbrakk>files s fd = Some (filp, pos); aesd_read K filp count pos (loaded s) = Inr (ret, out, pos', d)\<rbrakk>
     \<Longrightarrow> session_step K s (Delivered fd out) \<lparr>loaded = d, files = (files s)(fd \<mapsto> (filp, pos'))\<rparr>"
| step_release: "\<lbrakk>files s fd = Some (filp, pos); aesd_release filp = 0\<rbrakk>
     \<Longrightarrow> session_step K s (Released fd) (s\<lparr>files := (files s)(fd := None)\<rparr>)"
| step_elsewhere: "\<forall>b \<in> owned (loaded s). blocks m b = blocks (kmem (loaded s)) b
     \<Longrightarrow> session_step K s Elsewhere (s\<lparr>loaded := (loaded s)\<lparr>kmem := m\<rparr>\<rparr>)"

inductive session_run :: "'e kernel_api \<Rightarrow> 'e session \<Rightarrow> event list \<Rightarrow> 'e session \<Rightarrow> bool" for K where
  run_none: "session_run K s [] s"
| run_step: "\<lbrakk>session_run K s tr s'; session_step K s' e s''\<rbrakk> \<Longrightarrow> session_run K s (tr @ [e]) s''"

text \<open>The session right after loading.\<close>

definition fresh_session :: "'e driver \<Rightarrow> 'e session" where
  "fresh_session d = \<lparr>loaded = d, files = Map.empty\<rparr>"

section \<open>Typing\<close>

text \<open>A session is well typed when the driver is safe and every open file refers to the device.\<close>

definition session_ok :: "'e session \<Rightarrow> bool" where
  "session_ok s \<longleftrightarrow> drv_safe (loaded s) \<and>
     (\<forall>fd filp pos. files s fd = Some (filp, pos) \<longrightarrow> private_data filp = Some AESD_DEVICE)"

text \<open>Memory of the driver that is left alone keeps its meaning.\<close>

lemma entry_agree:
  assumes "\<forall>b \<in> set (block_of e). B' b = B b"
  shows "owns B' e = owns B e" and "data_of B' e = data_of B e" and "staging_safe B' e = staging_safe B e"
  using assms by (auto simp: owns_def data_of_def staging_safe_def block_of_def split: ptr.splits)

lemma driver_agree:
  assumes "\<forall>b \<in> owned d. blocks m b = blocks (kmem d) b"
  shows "drv_safe (d\<lparr>kmem := m\<rparr>) = drv_safe d" and "drv_inv (d\<lparr>kmem := m\<rparr>) = drv_inv d" and "drv_abs (d\<lparr>kmem := m\<rparr>) = drv_abs d"
proof -
  let ?es = "contents (circular_buffer (aesd_device d)) @ [staging d]"
  have agree: "\<forall>b \<in> set (block_of e). blocks m b = blocks (kmem d) b" if "e \<in> set ?es" for e
    using that assms by (auto simp: owned_def set_blocks_of)
  note same = entry_agree [OF agree]
  show safe: "drv_safe (d\<lparr>kmem := m\<rparr>) = drv_safe d"
    using same by (auto simp: drv_safe_def dev_safe_def list_all_iff)
  show "drv_inv (d\<lparr>kmem := m\<rparr>) = drv_inv d" using safe same(3) by (simp add: drv_inv_def staging_wf_def)
  show "drv_abs (d\<lparr>kmem := m\<rparr>) = drv_abs d" using same(2) by (simp add: drv_abs_def)
qed

lemma session_step_ok:
  assumes "session_step K s e s'" and "kernel_ok K" and "session_ok s"
  shows "session_ok s'"
  using assms(1)
proof cases
  case (step_open fd filp)
  with assms(3) show ?thesis by (auto simp: session_ok_def aesd_open_def)
next
  case (step_write fd filp pos count buf ret pos' d)
  have safe: "drv_safe (loaded s)" and fd: "private_data filp = Some AESD_DEVICE"
    using assms(3) step_write(3) by (auto simp: session_ok_def)
  from assms(2) safe fd step_write(4) have "drv_safe d"
  proof (cases rule: aesd_write_outcome [where buf = buf and f_pos = pos])
    case (written r d')
    with step_write(5) show ?thesis by (simp add: drv_inv_def)
  qed (use step_write(5) in simp)
  then show ?thesis using assms(3) fd step_write(2) by (auto simp: session_ok_def)
next
  case (step_read fd filp pos count ret out pos' d)
  have safe: "drv_safe (loaded s)" and fd: "private_data filp = Some AESD_DEVICE"
    using assms(3) step_read(3) by (auto simp: session_ok_def)
  with assms(2) have "drv_safe d"
  proof (cases rule: aesd_read_outcome [where count = count and f_pos = pos])
    case (data k j n d')
    with step_read(4) safe show ?thesis by (simp add: drv_safe_def)
  qed (use step_read(4) safe in simp)
  then show ?thesis using assms(3) fd step_read(2) by (auto simp: session_ok_def)
next
  case (step_release fd filp pos)
  with assms(3) show ?thesis by (auto simp: session_ok_def split: if_splits)
next
  case (step_elsewhere m)
  with assms(3) show ?thesis by (simp add: session_ok_def driver_agree(1))
qed

lemma session_run_ok:
  assumes "session_run K s tr s'" and "kernel_ok K" and "session_ok s"
  shows "session_ok s'"
  using assms by induction (auto intro: session_step_ok)

lemma fresh_session_ok: "drv_inv d \<Longrightarrow> session_ok (fresh_session d)"
  by (simp add: session_ok_def fresh_session_def drv_inv_def)

lemma init_module_zero:
  assumes "aesd_init_module region_result dev cdev_add_result s = (0, d)"
  shows "drv_inv d" and "drv_abs d = \<lparr>spec_log = [], spec_staged = []\<rparr>"
proof -
  have "0 \<le> region_result \<and> cdev_add_result = 0"
    using init_module_fails [of region_result cdev_add_result dev s] assms by fastforce
  then show "drv_inv d" and "drv_abs d = \<lparr>spec_log = [], spec_staged = []\<rparr>"
    using assms by (auto elim: init_module_ok [of region_result dev s])
qed

text \<open>In a well-typed session no operation faults.\<close>

lemma session_progress:
  assumes "kernel_ok K" and "session_ok s" and "files s fd = Some (filp, pos)"
  shows "unat count \<le> max_rw_count \<Longrightarrow> \<exists>r. aesd_write K filp buf count pos (loaded s) = Inr r"
    and "\<exists>r. aesd_read K filp count pos (loaded s) = Inr r"
proof -
  have ok: "drv_safe (loaded s)" "private_data filp = Some AESD_DEVICE" using assms(2,3) by (auto simp: session_ok_def)
  show "\<exists>r. aesd_write K filp buf count pos (loaded s) = Inr r" if "unat count \<le> max_rw_count"
    using assms(1) ok that by (cases rule: aesd_write_outcome [where buf = buf and f_pos = pos]) auto
  show "\<exists>r. aesd_read K filp count pos (loaded s) = Inr r"
    using assms(1) ok by (cases rule: aesd_read_outcome [where count = count and f_pos = pos]) auto
qed

section \<open>Refinement\<close>

text \<open>
  The abstract device accepts an event: a write has the effect of \<open>spec_write\<close>, a read delivers the
  beginning of a stored line, or nothing.
\<close>

fun spec_event :: "event \<Rightarrow> device_spec \<Rightarrow> device_spec option" where
  "spec_event (Written fd buf count ret) a = Some (spec_write (received buf count (count - ret)) a)"
| "spec_event (Delivered fd out) a =
     (if out = [] \<or> list_ex (\<lambda>line. take (length out) line = out) (spec_log a) then Some a else None)"
| "spec_event _ a = Some a"

fun spec_events :: "event list \<Rightarrow> device_spec \<Rightarrow> device_spec option" where
  "spec_events [] a = Some a"
| "spec_events (e # tr) a = Option.bind (spec_event e a) (spec_events tr)"

fun out_of_memory :: "event \<Rightarrow> bool" where
  "out_of_memory (Written fd buf count ret) \<longleftrightarrow> ret = - ENOMEM"
| "out_of_memory _ \<longleftrightarrow> False"

lemma spec_events_append: "spec_events (tr @ tr') a = Option.bind (spec_events tr a) (spec_events tr')"
  by (induction tr arbitrary: a) (auto split: Option.bind_splits)

lemma session_step_refines:
  assumes "session_step K s e s'" and "kernel_ok K" and "session_ok s" and "drv_inv (loaded s)" and "\<not> out_of_memory e"
  shows "drv_inv (loaded s') \<and> spec_event e (drv_abs (loaded s)) = Some (drv_abs (loaded s'))"
  using assms(1)
proof cases
  case (step_write fd filp pos count buf ret pos' d)
  have safe: "drv_safe (loaded s)" and wf: "staging_wf (blocks (kmem (loaded s))) (staging (loaded s))"
    using assms(4) by (simp_all add: drv_inv_def)
  have fd: "private_data filp = Some AESD_DEVICE" using assms(3) step_write(3) by (auto simp: session_ok_def)
  from assms(2) safe fd step_write(4) show ?thesis
  proof (cases rule: aesd_write_outcome [where buf = buf and f_pos = pos])
    case (nomem d')
    with step_write assms(5) show ?thesis by simp
  next
    case (written r d')
    then have "count - ret = r" and "d' = d" using step_write(5) by auto
    with written(4,6) wf step_write(1,2) show ?thesis by simp
  qed
next
  case (step_read fd filp pos count ret out pos' d)
  have fd: "private_data filp = Some AESD_DEVICE" using assms(3) step_read(3) by (auto simp: session_ok_def)
  have "drv_safe (loaded s)" using assms(4) by (simp add: drv_inv_def)
  from assms(2) this fd show ?thesis
  proof (cases rule: aesd_read_outcome [where count = count and f_pos = pos])
    case eof
    with step_read assms(4) show ?thesis by simp
  next
    case (data k j n d')
    have d: "d = d'" "out = take n (spec_log (drv_abs (loaded s)) ! k)" using data(4) step_read(4) by simp_all
    have k: "k < length (spec_log (drv_abs (loaded s)))" using locate_SomeD [OF data(1)] by simp
    have "drv_inv d" "drv_abs d = drv_abs (loaded s)"
      using data(5,6) assms(4) by (simp_all add: d(1) drv_inv_def drv_safe_def drv_abs_def)
    moreover have "list_ex (\<lambda>line. take (length out) line = out) (spec_log (drv_abs (loaded s)))"
      using k data(2) by (auto simp: list_ex_iff d(2) intro!: bexI [OF _ nth_mem])
    ultimately show ?thesis using step_read(1,2) by simp
  qed
qed (use assms(4) in \<open>simp_all add: driver_agree\<close>)

lemma session_run_refines:
  assumes "session_run K s tr s'" and "kernel_ok K" and "session_ok s" and "drv_inv (loaded s)" and "list_all (\<lambda>e. \<not> out_of_memory e) tr"
  shows "drv_inv (loaded s') \<and> spec_events tr (drv_abs (loaded s)) = Some (drv_abs (loaded s'))"
  using assms
proof induction
  case (run_step s tr s' e s'')
  then have "session_ok s'" by (auto intro: session_run_ok)
  with run_step session_step_refines [OF run_step(2)] show ?case by (simp add: spec_events_append)
qed simp

section \<open>Properties\<close>

text \<open>
  Property C5. Type safety of the loaded driver. From a successful load on, under any interleaving of opens,
  writes, reads and releases of any number of files and any activity of the rest of the kernel
  outside of the driver's memory, the driver stays safe (every stored line owns its block, no
  block is owned twice, the mutex is free) and every open file refers to the device. So no read
  or write ever faults, and unloading at any moment frees exactly the driver's memory.\<close>

theorem driver_sessions_type_safe:
  assumes "kernel_ok K" and "aesd_init_module region_result dev cdev_add_result s0 = (0, d)"
    and "session_run K (fresh_session d) tr s"
  shows "session_ok s \<and>
    (\<forall>fd filp pos. files s fd = Some (filp, pos) \<longrightarrow>
       (\<forall>buf count. unat count \<le> max_rw_count \<longrightarrow> (\<exists>r. aesd_write K filp buf count pos (loaded s) = Inr r)) \<and>
       (\<forall>count. \<exists>r. aesd_read K filp count pos (loaded s) = Inr r)) \<and>
    (\<exists>d'. aesd_cleanup_module K (loaded s) = Inr d' \<and> dom (blocks (kmem d')) = unowned (loaded s) \<and> \<not> cdev_live d')"
proof -
  have ok: "session_ok s"
    using session_run_ok [OF assms(3,1)] fresh_session_ok init_module_zero(1) [OF assms(2)] by blast
  then have "drv_safe (loaded s)" by (simp add: session_ok_def)
  then have "\<exists>d'. aesd_cleanup_module K (loaded s) = Inr d' \<and> dom (blocks (kmem d')) = unowned (loaded s) \<and> \<not> cdev_live d'"
    by (rule cleanup_outcome [OF assms(1)]) auto
  with ok session_progress [OF assms(1) ok] show ?thesis by blast
qed

lemma ex_load: "aesd_init_module 0 dev 0 (ex_driver []) = (0, snd (aesd_init_module 0 dev 0 (ex_driver [])))"
  by (simp add: aesd_init_module_def aesd_setup_cdev_def Let_def)

lemma ex_opened:
  "session_run K (fresh_session d) [Opened 3] \<lparr>loaded = d, files = [3 \<mapsto> (ex_file, 0)]\<rparr>"
  using run_step [OF run_none step_open, of "fresh_session d" 3 ex_file K] 
  by (simp add: fresh_session_def ex_file_def aesd_open_def)

theorem driver_sessions_type_safe_witness:
  "\<exists>r. aesd_write ref_kernel ex_file [104, 105] 2 0 (snd (aesd_init_module 0 5 0 (ex_driver []))) = Inr r"
proof -
  have "unat (2 :: size_t) \<le> max_rw_count" by (simp add: max_rw_count_def)
  with driver_sessions_type_safe [OF ref_kernel_ok ex_load ex_opened, of 5] show ?thesis by simp
qed

text \<open>
  Property C6. Every history of the loaded driver in which memory does not run out is a history of the abstract
  device: writes through all files append to one unfinished line and complete it, only the ten
  newest lines are kept, every read delivers nothing or the beginning of a line that is stored at
  that moment, and opening, releasing and the rest of the kernel change nothing. The final contents
  of the device are those of the abstract one.\<close>

theorem driver_sessions_refine:
  assumes "kernel_ok K" and "aesd_init_module region_result dev cdev_add_result s0 = (0, d)"
    and "session_run K (fresh_session d) tr s" and "list_all (\<lambda>e. \<not> out_of_memory e) tr"
  shows "spec_events tr \<lparr>spec_log = [], spec_staged = []\<rparr> = Some (drv_abs (loaded s)) \<and> drv_inv (loaded s)"
  using session_run_refines [OF assms(3,1) fresh_session_ok _ assms(4)] init_module_zero [OF assms(2)]
  by (simp add: fresh_session_def)

theorem driver_sessions_refine_witness:
  "\<exists>s. session_run ref_kernel (fresh_session (snd (aesd_init_module 0 5 0 (ex_driver [])))) [Opened 3, Written 3 [104, 10] 2 2] s \<and>
     drv_abs (loaded s) = \<lparr>spec_log = [[104, 10]], spec_staged = []\<rparr>"
proof -
  let ?d = "snd (aesd_init_module 0 5 0 (ex_driver []))"
  obtain pos' d' where w: "aesd_write ref_kernel ex_file [104, 10] 2 0 ?d = Inr (2, pos', d')"
    by (simp add: kernel_eval ring_eval driver_eval aesd_init_module_def aesd_setup_cdev_def)
  have "session_step ref_kernel \<lparr>loaded = ?d, files = [3 \<mapsto> (ex_file, 0)]\<rparr> (Written 3 [104, 10] 2 2)
      \<lparr>loaded = d', files = [3 \<mapsto> (ex_file, pos')]\<rparr>"
    using w step_write [where s = "\<lparr>loaded = ?d, files = [3 \<mapsto> (ex_file, 0)]\<rparr>" and fd = 3 and filp = ex_file and pos = 0
        and K = ref_kernel and count = 2 and ret = 2 and buf = "[104, 10]" and pos' = pos' and d = d']
    by (simp add: max_rw_count_def)
  from run_step [OF ex_opened this] have run: "session_run ref_kernel (fresh_session ?d) [Opened 3, Written 3 [104, 10] 2 2]
      \<lparr>loaded = d', files = [3 \<mapsto> (ex_file, pos')]\<rparr>" by simp
  from driver_sessions_refine [OF ref_kernel_ok ex_load run] run show ?thesis
    by (auto simp: ENOMEM_def spec_write_def received_def)
qed

end
