(* ===== verification/Systemcalls.thy ===== *)
theory Systemcalls
  imports Posix
begin

text \<open>
  Running a command in a child process, \<^verbatim>\<open>examples/systemcalls/systemcalls.c\<close>. After \<^verbatim>\<open>fork\<close> two
  processes execute the same code, each with its own result of the call; the definitions describe
  the code as one process executes it, and the properties relate the two.
\<close>

unbundle bit_operations_syntax

section \<open>Wait status\<close>

text \<open>The macros of \<^verbatim>\<open>sys/wait.h\<close> on a status word.\<close>

type_synonym wait_status = "32 word"

definition WIFEXITED :: "wait_status \<Rightarrow> bool" where
  "WIFEXITED status \<longleftrightarrow> status AND 0x7f = 0"

definition WEXITSTATUS :: "wait_status \<Rightarrow> wait_status" where
  "WEXITSTATUS status = drop_bit 8 (status AND 0xff00)"

definition is_command_successful :: "wait_status \<Rightarrow> bool" where
  "is_command_successful status =
     (if WIFEXITED status then
        let exit_code = WEXITSTATUS status in if exit_code = 0 then True else False
      else False)"

text \<open>
  How a child ends, and the status that the kernel reports for it: the low byte of the exit code
  above a zero byte, or the signal number (below 127) with the core dump bit.
\<close>

datatype child_end = ExitedWith int | KilledBy nat bool

fun status_of :: "child_end \<Rightarrow> wait_status" where
  "status_of (ExitedWith code) = push_bit 8 (of_int code AND 0xff)"
| "status_of (KilledBy sig core) = of_nat sig OR (if core then 0x80 else 0)"

fun child_end_ok :: "child_end \<Rightarrow> bool" where
  "child_end_ok (ExitedWith code) = True"
| "child_end_ok (KilledBy sig core) = (0 < sig \<and> sig < 127)"

lemma masks: "(0x7f :: wait_status) = mask 7" "(0xff :: wait_status) = mask 8" "(0xff00 :: wait_status) = push_bit 8 (mask 8)"
  by (simp_all add: mask_eq_exp_minus_1 push_bit_eq_mult)

lemma WIFEXITED_take_bit: "WIFEXITED status \<longleftrightarrow> take_bit 7 status = 0"
  by (simp add: WIFEXITED_def masks(1) take_bit_eq_mask)

lemma WEXITSTATUS_take_bit: "WEXITSTATUS status = take_bit 8 (drop_bit 8 status)"
  unfolding WEXITSTATUS_def masks(3) by (rule bit_word_eqI) (auto simp: bit_simps)

lemma status_of_exit: "status_of (ExitedWith code) = push_bit 8 (take_bit 8 (of_int code))"
  by (simp add: masks(2) take_bit_eq_mask)

lemma is_command_successful_exit:
  "is_command_successful (status_of (ExitedWith code)) \<longleftrightarrow> code mod 256 = 0"
proof -
  have "WIFEXITED (status_of (ExitedWith code))"
    unfolding WIFEXITED_take_bit status_of_exit by (rule bit_word_eqI) (auto simp: bit_simps)
  moreover have "WEXITSTATUS (status_of (ExitedWith code)) = take_bit 8 (of_int code)"
    unfolding WEXITSTATUS_take_bit status_of_exit by (rule bit_word_eqI) (auto simp: bit_simps)
  moreover have "take_bit 8 (of_int code :: wait_status) = of_int (take_bit 8 code)"
    by (simp add: take_bit_of_int)
  moreover have "0 \<le> take_bit 8 code" and "take_bit 8 code < 256" by (simp_all add: take_bit_eq_mod)
  then have "(of_int (take_bit 8 code) :: wait_status) = 0 \<longleftrightarrow> take_bit 8 code = 0"
    using dvd_imp_le_int [of "take_bit 8 code" 4294967296] by (auto simp: word_of_int_eq_0_iff)
  ultimately show ?thesis
    by (simp add: is_command_successful_def take_bit_eq_mod)
qed

lemma is_command_successful_killed:
  assumes "0 < sig" and "sig < 127"
  shows "\<not> is_command_successful (status_of (KilledBy sig core))"
proof -
  have "take_bit 7 (status_of (KilledBy sig core)) = of_nat (take_bit 7 sig)"
    by (auto simp: take_bit_or take_bit_of_nat)
  moreover have "take_bit 7 sig = sig" using assms(2) by (simp add: take_bit_nat_eq_self)
  moreover have "(of_nat sig :: wait_status) \<noteq> 0" using assms by (auto simp: word_of_nat_eq_0_iff dest: dvd_imp_le)
  ultimately show ?thesis by (simp add: is_command_successful_def WIFEXITED_take_bit)
qed

section \<open>Processes\<close>

text \<open>
  The calls beyond those of the server. \<open>pa_execv\<close> returns only when it fails; \<open>None\<close> stands for the
  program image having been replaced. Its path is always the first element of the argument array.
\<close>

record 'w process_api =
  pa_system :: "string \<Rightarrow> ('w, int) proc"
  pa_execv :: "string option list \<Rightarrow> 'w globals \<Rightarrow> 'w globals option"
  pa_waitpid :: "int \<Rightarrow> ('w, int \<times> wait_status) proc"
  pa_creat :: "string \<Rightarrow> nat \<Rightarrow> ('w, int) proc"
  pa_dup2 :: "int \<Rightarrow> int \<Rightarrow> ('w, int) proc"

text \<open>
  What becomes of a process that executes a function: it returns to the caller, ends by
  \<^verbatim>\<open>exit\<close>, or continues as another program.
\<close>

datatype 'a fate = Return 'a | Exit int | Become "string option list"

definition do_system :: "'w process_api \<Rightarrow> string \<Rightarrow> ('w, bool) proc" where
  "do_system X cmd =
     bindP (pa_system X cmd) (\<lambda>retval. if retval = 0 then retP True else retP False)"

text \<open>
  The loop that stores the variable arguments in \<^verbatim>\<open>command\<close>; reading more arguments than were passed
  is a fault, as is an array without elements. The array ends with a null pointer.
\<close>

fun collect_args :: "nat \<Rightarrow> string list \<Rightarrow> fault + string option list" where
  "collect_args 0 args = Inr []"
| "collect_args (Suc n) [] = Inl OutOfBounds"
| "collect_args (Suc n) (a # args) = bindE (collect_args n args) (\<lambda>as. Inr (Some a # as))"

definition command_array :: "int \<Rightarrow> string list \<Rightarrow> fault + string option list" where
  "command_array count args =
     (if count < 0 then Inl OutOfBounds else bindE (collect_args (nat count) args) (\<lambda>as. Inr (as @ [None])))"

text \<open>The child: the command replaces it, or it exits with code -1.\<close>

definition exec_child :: "'w process_api \<Rightarrow> string option list \<Rightarrow> ('w, bool fate) proc" where
  "exec_child X command w =
     (case pa_execv X command w of
        None \<Rightarrow> returns (Become command, w)
      | Some w' \<Rightarrow> returns (Exit (- 1), w'))"

definition exec_parent :: "'w process_api \<Rightarrow> int \<Rightarrow> ('w, bool fate) proc" where
  "exec_parent X pid =
     bindP (pa_waitpid X pid) (\<lambda>(r, status).
       if r = - 1 then retP (Return False) else retP (Return (is_command_successful status)))"

definition do_exec :: "'w posix \<Rightarrow> 'w process_api \<Rightarrow> int \<Rightarrow> string list \<Rightarrow> ('w, bool fate) proc" where
  "do_exec S X count args =
     bindP (checkP (command_array count args)) (\<lambda>command.
     bindP (sys_fork S) (\<lambda>pid.
       if pid = - 1 then retP (Return False)
       else if pid = 0 then exec_child X command
       else exec_parent X pid))"

definition redirect_child ::
  "'w posix \<Rightarrow> 'w process_api \<Rightarrow> string \<Rightarrow> string option list \<Rightarrow> ('w, bool fate) proc" where
  "redirect_child S X outputfile command =
     bindP (pa_creat X outputfile 420) (\<lambda>fd.
       if fd = - 1 then retP (Return False)
       else bindP (pa_dup2 X fd 1) (\<lambda>r.
         if r = - 1 then retP (Return False)
         else bindP (sys_close S fd) (\<lambda>_. exec_child X command)))"

definition do_exec_redirect ::
  "'w posix \<Rightarrow> 'w process_api \<Rightarrow> string \<Rightarrow> int \<Rightarrow> string list \<Rightarrow> ('w, bool fate) proc" where
  "do_exec_redirect S X outputfile count args =
     bindP (checkP (command_array count args)) (\<lambda>command.
     bindP (sys_fork S) (\<lambda>pid.
       if pid = - 1 then retP (Return False)
       else if pid = 0 then redirect_child S X outputfile command
       else exec_parent X pid))"

section \<open>Properties\<close>

lemma collect_args_take: "n \<le> length args \<Longrightarrow> collect_args n args = Inr (map Some (take n args))"
  by (induction n args rule: collect_args.induct) auto

lemma command_array_take:
  "0 \<le> count \<Longrightarrow> nat count \<le> length args \<Longrightarrow> command_array count args = Inr (map Some (take (nat count) args) @ [None])"
  by (simp add: command_array_def collect_args_take)

text \<open>
  The end of a child process: the end of the program it became, or its own exit. A child that
  returned from the function is still running.
\<close>

fun fate_end :: "(string option list \<Rightarrow> child_end) \<Rightarrow> 'a fate \<Rightarrow> child_end option" where
  "fate_end prog (Return b) = None"
| "fate_end prog (Exit code) = Some (ExitedWith code)"
| "fate_end prog (Become argv) = Some (prog argv)"

text \<open>
  What the waiting parent returns, once the kernel reports the end of a child that exited or became
  the command: true exactly when the command was started and exited by itself with a code whose
  low byte is 0.
\<close>

definition command_succeeded :: "(string option list \<Rightarrow> child_end) \<Rightarrow> string option list \<Rightarrow> 'a fate \<Rightarrow> bool" where
  "command_succeeded prog command e \<longleftrightarrow> (\<exists>code. e = Become command \<and> prog command = ExitedWith code \<and> code mod 256 = 0)"

lemma exec_parent_result:
  assumes "e = Exit (- 1) \<or> e = Become command" and "child_end_ok (prog command)"
    and "pa_waitpid X pid w = returns ((pid, status_of (the (fate_end prog e))), w')" and "0 < pid"
  shows "exec_parent X pid w = returns (Return (command_succeeded prog command e), w')"
proof -
  have "is_command_successful (status_of (the (fate_end prog e))) \<longleftrightarrow> command_succeeded prog command e"
    unfolding command_succeeded_def using assms(1,2)
    by (cases "prog command") (auto simp: is_command_successful_exit is_command_successful_killed simp del: status_of.simps)
  then show ?thesis using assms(3,4) by (simp add: exec_parent_def bindP_def)
qed

lemma exec_child_fate: "\<exists>e w'. exec_child X command w = returns (e, w') \<and> (e = Exit (- 1) \<or> e = Become command)"
  by (simp add: exec_child_def split: option.splits)

text \<open>
  Property C37. Run on a child process, \<^verbatim>\<open>do_exec\<close> tells whether the command succeeded: the child never
  returns into the caller's code (it becomes the command with exactly the arguments given, or
  exits), and when the kernel reports the child's end to the waiting parent, the parent returns
  true exactly when the command was started and exited by itself with a code whose low byte is 0.
\<close>

theorem do_exec_true_iff:
  assumes count: "0 \<le> count" "nat count \<le> length args"
    and fork: "sys_fork S w = returns (pid, w1)" "0 < pid" "sys_fork S wc = returns (0, wc1)"
    and prog: "child_end_ok (prog command)"
    and child: "do_exec S X count args wc = returns (e, wc2)"
    and wait: "pa_waitpid X pid w1 = returns ((pid, status_of (the (fate_end prog e))), w2)"
    and command: "command = map Some (take (nat count) args) @ [None]"
  shows "(e = Exit (- 1) \<or> e = Become command) \<and>
    do_exec S X count args w = returns (Return (command_succeeded prog command e), w2)"
proof -
  note arr = command_array_take [OF count, folded command]
  have e: "e = Exit (- 1) \<or> e = Become command"
    using child exec_child_fate [of X command wc1] by (auto simp: do_exec_def bindP_def arr fork(3))
  from exec_parent_result [OF this prog wait fork(2)] e show ?thesis
    using fork(2) by (simp add: do_exec_def bindP_def arr fork(1))
qed

text \<open>
  An example: the world says whether the process is the child, whose process id is 7. A command
  with the path \<^verbatim>\<open>/bin/true\<close> can be started and exits with 0; no other can.
\<close>

definition ex_process :: "bool \<Rightarrow> bool globals" where
  "ex_process child = \<lparr>is_terminated = False, timestamp_semaphore = 0, result_file_mutex = False, world = child\<rparr>"

definition ex_fork :: "bool posix" where
  "ex_fork = no_posix\<lparr>sys_fork := getP (\<lambda>w. if world w then 0 else 7)\<rparr>"

definition ex_process_api :: "bool process_api" where
  "ex_process_api = \<lparr>pa_system = (\<lambda>_. retP 0), pa_execv = (\<lambda>argv w. if argv ! 0 = Some ''/bin/true'' then None else Some w),
     pa_waitpid = (\<lambda>pid. retP (pid, 0)), pa_creat = (\<lambda>_ _. retP (- 1)), pa_dup2 = (\<lambda>fd fd'. retP fd')\<rparr>"

lemmas exec_eval = do_exec_def bindP_def ex_fork_def ex_process_def command_array_def exec_child_def ex_process_api_def

theorem do_exec_true_iff_witness:
  "do_exec ex_fork ex_process_api 1 [''/bin/true''] (ex_process False) = returns (Return True, ex_process False)"
proof -
  have "do_exec ex_fork ex_process_api 1 [''/bin/true''] (ex_process True) =
      returns (Become [Some ''/bin/true'', None], ex_process True)" by (simp add: exec_eval)
  from do_exec_true_iff [where w = "ex_process False" and prog = "\<lambda>_. ExitedWith 0" and pid = 7, OF _ _ _ _ _ _ this]
  show ?thesis by (simp add: ex_fork_def ex_process_def ex_process_api_def command_succeeded_def)
qed

text \<open>
  Property C38. With the output redirected, the child returns false to the caller, as a second process in the
  caller's code, exactly when the output file cannot be created or cannot become descriptor 1.
  Otherwise it becomes the command with exactly the arguments given, or exits, and then the parent
  returns true exactly when the command was started and exited with a code whose low byte is 0.
\<close>

theorem do_exec_redirect_outcome:
  assumes count: "0 \<le> count" "nat count \<le> length args"
    and fork: "sys_fork S w = returns (pid, wk)" "0 < pid" "sys_fork S wc = returns (0, wcf)"
    and prog: "child_end_ok (prog command)"
    and out: "pa_creat X outputfile 420 wcf = returns (fd, wco)" "pa_dup2 X fd 1 wco = returns (d, wcd)"
      "sys_close S fd wcd = returns (c, wcc)"
    and child: "do_exec_redirect S X outputfile count args wc = returns (e, wce)"
    and wait: "e \<noteq> Return False \<Longrightarrow> pa_waitpid X pid wk = returns ((pid, status_of (the (fate_end prog e))), ww)"
    and command: "command = map Some (take (nat count) args) @ [None]"
  shows "if fd = - 1 \<or> d = - 1 then e = Return False
    else (e = Exit (- 1) \<or> e = Become command) \<and>
      do_exec_redirect S X outputfile count args w = returns (Return (command_succeeded prog command e), ww)"
proof -
  note arr = command_array_take [OF count, folded command]
  note run = do_exec_redirect_def redirect_child_def bindP_def arr fork(3) out
  show ?thesis
  proof (cases "fd = - 1 \<or> d = - 1")
    case True
    then have "e = Return False" using child by (auto simp: run split: if_splits)
    with True show ?thesis by simp
  next
    case False
    then have "exec_child X command wcc = returns (e, wce)" using child by (simp add: run)
    then have e: "e = Exit (- 1) \<or> e = Become command" using exec_child_fate [of X command wcc] by auto
    then have "e \<noteq> Return False" by auto
    note parent = exec_parent_result [OF e prog wait [OF this] fork(2)]
    have "do_exec_redirect S X outputfile count args w = exec_parent X pid wk"
      using fork(2) by (simp add: do_exec_redirect_def bindP_def arr fork(1))
    with e False parent show ?thesis by simp
  qed
qed

definition ex_redirect_api :: "bool process_api" where
  "ex_redirect_api = ex_process_api\<lparr>pa_creat := (\<lambda>_ _. retP 4)\<rparr>"

theorem do_exec_redirect_outcome_witness:
  "do_exec_redirect ex_fork ex_redirect_api ''out'' 1 [''/bin/true''] (ex_process False) = returns (Return True, ex_process False)"
proof -
  let ?true = "[Some ''/bin/true'', None]" and ?p = "ex_process False" and ?c = "ex_process True"
  have fork: "sys_fork ex_fork ?p = returns (7, ?p)" "0 < (7 :: int)" "sys_fork ex_fork ?c = returns (0, ?c)"
    by (simp_all add: ex_fork_def ex_process_def)
  have prog: "child_end_ok ((\<lambda>_. ExitedWith 0) ?true)" by simp
  have out: "pa_creat ex_redirect_api ''out'' 420 ?c = returns (4, ?c)" "pa_dup2 ex_redirect_api 4 1 ?c = returns (1, ?c)"
      "sys_close ex_fork 4 ?c = returns (- 1, ?c)"
    by (simp_all add: ex_redirect_api_def ex_process_api_def ex_fork_def no_posix_def)
  have child: "do_exec_redirect ex_fork ex_redirect_api ''out'' 1 [''/bin/true''] ?c = returns (Become ?true, ?c)"
    by (simp add: exec_eval do_exec_redirect_def redirect_child_def ex_redirect_api_def no_posix_def)
  have wait: "pa_waitpid ex_redirect_api 7 ?p = returns ((7, status_of (the (fate_end (\<lambda>_. ExitedWith 0) (Become ?true)))), ?p)"
    by (simp add: ex_redirect_api_def ex_process_api_def)
  have command: "?true = map Some (take (nat 1) [''/bin/true'']) @ [None]" by simp
  from do_exec_redirect_outcome [OF _ _ fork prog out child wait command] show ?thesis
    by (simp add: command_succeeded_def)
qed

text \<open>The same program when the file cannot be created: two processes continue.\<close>

lemma redirect_child_returns:
  "do_exec_redirect ex_fork ex_process_api ''out'' 1 [''/bin/true''] (ex_process True) = returns (Return False, ex_process True)"
  by (simp add: exec_eval do_exec_redirect_def redirect_child_def)

end
