(* ===== verification/Threading.thy ===== *)
theory Threading
  imports Prelude
begin

text \<open>
  A thread that sleeps, obtains a mutex, holds it while it sleeps and releases it,
  \<^verbatim>\<open>examples/threading/threading.c\<close>, with the structure of \<^verbatim>\<open>threading.h\<close> that the starting thread and
  the new thread share.
\<close>

section \<open>State and operations\<close>

text \<open>\<^verbatim>\<open>struct thread_data\<close>; a mutex is given by its address.\<close>

record thread_args =
  wait_to_obtain_ms :: int
  wait_to_release_ms :: int
  mutex :: nat
  thread_complete_success :: bool

record 'e threads =
  args_heap :: "nat \<rightharpoonup> thread_args"
  outside :: 'e

text \<open>
  The calls: \<open>mt_lock\<close> and \<open>mt_unlock\<close> include what other threads do meanwhile; \<open>None\<close> stands for a
  lock that is never obtained. \<open>mt_create\<close> is given the address of the structure.
\<close>

record 'e thread_calls =
  mt_malloc :: "'e threads \<Rightarrow> nat option \<times> 'e threads"
  mt_create :: "nat \<Rightarrow> 'e threads \<Rightarrow> (int \<times> nat) \<times> 'e threads"
  mt_usleep :: "32 word \<Rightarrow> 'e threads \<Rightarrow> 'e threads"
  mt_lock :: "nat \<Rightarrow> 'e threads \<Rightarrow> 'e threads option"
  mt_unlock :: "nat \<Rightarrow> 'e threads \<Rightarrow> 'e threads"

definition args_at :: "nat \<Rightarrow> 'e threads \<Rightarrow> fault + thread_args" where
  "args_at x h = (case args_heap h x of None \<Rightarrow> Inl UseAfterFree | Some a \<Rightarrow> Inr a)"

text \<open>
  The argument of \<^verbatim>\<open>usleep\<close> is computed as a \<^verbatim>\<open>double\<close>, exact for every \<^verbatim>\<open>int\<close>, and converted to a 32
  bit unsigned type; the conversion of a value outside of that type is undefined.
\<close>

definition useconds :: "int \<Rightarrow> fault + 32 word" where
  "useconds ms = (if 0 \<le> 1000 * ms \<and> 1000 * ms < 2 ^ 32 then Inr (of_int (1000 * ms)) else Inl BadConversion)"

definition threadfunc :: "'e thread_calls \<Rightarrow> nat \<Rightarrow> 'e threads \<Rightarrow> (fault + nat \<times> 'e threads) option" where
  "threadfunc C thread_param h =
     bindT (Some (args_at thread_param h)) (\<lambda>a.
     bindT (Some (useconds (wait_to_obtain_ms a))) (\<lambda>us.
       let h1 = mt_usleep C us h in
       bindT (Some (args_at thread_param h1)) (\<lambda>a1.
         case mt_lock C (mutex a1) h1 of
           None \<Rightarrow> None
         | Some h2 \<Rightarrow>
             bindT (Some (args_at thread_param h2)) (\<lambda>a2.
             bindT (Some (useconds (wait_to_release_ms a2))) (\<lambda>us2.
               let h3 = mt_usleep C us2 h2 in
               bindT (Some (args_at thread_param h3)) (\<lambda>a3. returns (thread_param, mt_unlock C (mutex a3) h3)))))))"

text \<open>The thread identifier, stored through the pointer \<^verbatim>\<open>thread\<close>, is part of the result.\<close>

definition start_thread_obtaining_mutex ::
  "'e thread_calls \<Rightarrow> nat \<Rightarrow> int \<Rightarrow> int \<Rightarrow> 'e threads \<Rightarrow> fault + (bool \<times> nat) \<times> 'e threads" where
  "start_thread_obtaining_mutex C mutex_ptr obtain_ms release_ms h =
     (case mt_malloc C h of
        (None, h1) \<Rightarrow> Inl NullDeref
      | (Some x, h1) \<Rightarrow>
          let h2 = h1\<lparr>args_heap := (args_heap h1)(x \<mapsto> \<lparr>wait_to_obtain_ms = obtain_ms, wait_to_release_ms = release_ms,
                mutex = mutex_ptr, thread_complete_success = False\<rparr>)\<rparr>;
              ((r, thread), h3) = mt_create C x h2
          in bindE (args_at x h3) (\<lambda>a.
               let h4 = (if r = 0 then h3\<lparr>args_heap := (args_heap h3)(x \<mapsto> a\<lparr>thread_complete_success := True\<rparr>)\<rparr> else h3)
               in bindE (args_at x h4) (\<lambda>a1. Inr ((thread_complete_success a1, thread), h4))))"

section \<open>Properties\<close>

text \<open>Other threads leave a structure alone while a call is made.\<close>

definition keeps_args :: "'e thread_calls \<Rightarrow> nat \<Rightarrow> bool" where
  "keeps_args C x \<longleftrightarrow>
     (\<forall>h. args_heap (snd (mt_create C x h)) x = args_heap h x) \<and>
     (\<forall>us h. args_heap (mt_usleep C us h) x = args_heap h x) \<and>
     (\<forall>m h. \<exists>h'. mt_lock C m h = Some h' \<and> args_heap h' x = args_heap h x)"

lemma useconds_ok: "0 \<le> ms \<Longrightarrow> ms \<le> 4294967 \<Longrightarrow> useconds ms = Inr (of_int (1000 * ms))"
  by (simp add: useconds_def)


text \<open>An example: the rest of the world is the time slept and the mutexes held.\<close>

definition ex_calls :: "(nat \<times> nat set) thread_calls" where
  "ex_calls = \<lparr>mt_malloc = (\<lambda>h. (Some 0, h)), mt_create = (\<lambda>_ h. ((0, 5), h)),
     mt_usleep = (\<lambda>us h. h\<lparr>outside := (fst (outside h) + unat us, snd (outside h))\<rparr>),
     mt_lock = (\<lambda>m h. Some (h\<lparr>outside := (fst (outside h), insert m (snd (outside h)))\<rparr>)),
     mt_unlock = (\<lambda>m h. h\<lparr>outside := (fst (outside h), snd (outside h) - {m})\<rparr>)\<rparr>"

definition ex_threads_state :: "(nat \<times> nat set) threads" where
  "ex_threads_state = \<lparr>args_heap = Map.empty, outside = (0, {})\<rparr>"


end
