(* ===== verification/Writer.thy ===== *)
theory Writer
  imports Posix
begin

text \<open>
  The program \<^verbatim>\<open>writer\<close>, \<^verbatim>\<open>finder-app/writer.c\<close>: it writes its second argument to the file its first
  argument names. Log and usage output is left out.
\<close>

section \<open>The program\<close>

definition string_bytes :: "string \<Rightarrow> byte list" where
  "string_bytes s = map of_char s"

definition writer_main :: "'w posix \<Rightarrow> string list \<Rightarrow> ('w, int) proc" where
  "writer_main S argv =
     (if length argv \<noteq> 3 then retP 1
      else
        let file = argv ! 1; data = string_bytes (argv ! 2) in
        bindP (sys_open S file [O_WRONLY, O_CREAT] 420) (\<lambda>file_descriptor.
          if file_descriptor = - 1 then retP (- 1)
          else
            bindP (sys_write S file_descriptor data) (\<lambda>nr.
              if nr = - 1 then retP (- 1)
              else if nr \<noteq> of_nat (length data) then retP (- 1)
              else retP 0)))"

section \<open>Properties\<close>

lemma of_nat_size_eq_iff:
  assumes "m < 2 ^ 64" and "n < 2 ^ 64"
  shows "(of_nat m :: size_t) = of_nat n \<longleftrightarrow> m = n"
  using assms by (simp add: word_of_nat_eq_iff take_bit_nat_eq_self)


text \<open>An example: the world is the contents of the only file, and writes are complete.\<close>

definition ex_file_posix :: "byte list posix" where
  "ex_file_posix = no_posix\<lparr>sys_open := (\<lambda>_ _ _. retP 3),
     sys_write := (\<lambda>_ d. bindP (updP (\<lambda>w. w\<lparr>world := d @ drop (length d) (world w)\<rparr>)) (\<lambda>_. retP (of_nat (length d))))\<rparr>"

definition ex_file :: "byte list \<Rightarrow> byte list globals" where
  "ex_file bs = \<lparr>is_terminated = False, timestamp_semaphore = 0, result_file_mutex = False, world = bs\<rparr>"


end
