(* ===== verification/Autotest.thy ===== *)
theory Autotest
  imports Main
begin

text \<open>
  The functions that validate the test setup of the course, \<^verbatim>\<open>examples/autotest-validate\<close>, the program
  that prints two of them, and the unit test of the user name
  (\<^verbatim>\<open>student-test/assignment1/Test_validate_username.c\<close>). A program is the pair of its output and its
  exit code.
\<close>

definition this_function_returns_true :: bool where
  "this_function_returns_true = True"

definition this_function_returns_false :: bool where
  "this_function_returns_false = False"

definition my_username :: string where
  "my_username = ''jackcenter''"

definition autotest_main :: "string list \<Rightarrow> string \<times> int" where
  "autotest_main argv =
     (''this_function_returns_true returned '' @ (if this_function_returns_true then ''true'' else ''false'') @ [CHR 0x0A] @
      ''this_function_returns_false returned '' @ (if this_function_returns_false then ''true'' else ''false'') @ [CHR 0x0A],
      0)"

text \<open>The test passes when the two strings are equal.\<close>

definition test_validate_my_username :: bool where
  "test_validate_my_username \<longleftrightarrow> ''jackcenter'' = my_username"

text \<open>
  The comment of the test asks for a comparison with the contents of \<^verbatim>\<open>conf/username.txt\<close>. The test
  compares with a constant: it passes whatever the file holds, and decides the same only for the
  name that the file holds in this repository.
\<close>

lemma test_ignores_conf_file:
  "test_validate_my_username" "test_validate_my_username = (conf_username = my_username) \<longleftrightarrow> conf_username = ''jackcenter''"
  by (auto simp: test_validate_my_username_def my_username_def)

end
